theory Spec2Isabelle
  imports Complex_Main "HOL-Library.Log_Nat" "HOL-Library.Word"
begin

section \<open>The platform\<close>

text \<open>
  The program \<^verbatim>\<open>mq-template.cpp\<close> is a POSIX program. The model fixes the LP64 data model
  of Linux: \<^verbatim>\<open>unsigned\<close> has 32 value bits, \<^verbatim>\<open>ssize_t\<close> has 63 value bits and a
  sign. A message priority is a \<^typ>\<open>32 word\<close>; sizes and return codes are \<^typ>\<open>int\<close>
  with the range checks written out where the program has them.
\<close>

definition EINTR :: int where
  "EINTR = 4"

definition EBADF :: int where
  "EBADF = 9"

definition EMSGSIZE :: int where
  "EMSGSIZE = 90"

definition UINT_MAX :: nat where
  "UINT_MAX = 2 ^ 32 - 1"

definition SSIZE_MAX :: nat where
  "SSIZE_MAX = 2 ^ 63 - 1"

text \<open>
  \<^verbatim>\<open>std::numeric_limits<T>::digits10\<close> of a binary integer type with \<open>bits\<close> value bits
  is \<open>\<lfloor>bits * log\<^sub>1\<^sub>0 2\<rfloor>\<close>, one less than the number of decimal digits of \<open>2 ^ bits\<close>.
\<close>

definition digits10 :: "nat \<Rightarrow> nat" where
  "digits10 bits = floorlog 10 (2 ^ bits) - 1"

section \<open>Text\<close>

definition endl :: string where
  "endl = [CHR 0x0A]"

definition dquote :: string where
  "dquote = [CHR 0x22]"

definition isspace :: "char \<Rightarrow> bool" where
  "isspace c = (c = CHR '' '' \<or> c = CHR 0x09 \<or> c = CHR 0x0A \<or> c = CHR 0x0B
                 \<or> c = CHR 0x0C \<or> c = CHR 0x0D)"

definition isdigit :: "char \<Rightarrow> bool" where
  "isdigit c = (48 \<le> (of_char c :: nat) \<and> (of_char c :: nat) \<le> 57)"

definition digit_char :: "nat \<Rightarrow> char" where
  "digit_char d = ''0123456789'' ! d"

text \<open>Decimal output of an unsigned value, as \<^verbatim>\<open>operator<<\<close> and \<^verbatim>\<open>%u\<close> print it.\<close>

fun dec_nat :: "nat \<Rightarrow> string" where
  "dec_nat n = (if n < 10 then [digit_char n]
                else dec_nat (n div 10) @ [digit_char (n mod 10)])"

declare dec_nat.simps [simp del]

text \<open>Decimal output of a signed value (\<^verbatim>\<open>operator<<\<close> on \<^verbatim>\<open>ssize_t\<close>, \<^verbatim>\<open>%lld\<close>).\<close>

definition dec_int :: "int \<Rightarrow> string" where
  "dec_int i = (if i < 0 then CHR ''-'' # dec_nat (nat (- i)) else dec_nat (nat i))"

section \<open>The environment and the session state\<close>

text \<open>
  Everything the program does to its environment is an event of a trace, in program
  order: the bytes handed to standard output and to standard error, the calls to the
  queue service, the operations on the three mutexes, the store to the shared flag
  \<^verbatim>\<open>stopped\<close>, and the thread and signal calls.
\<close>

datatype mutex = StoppedMutex | StdoutMutex | StderrMutex

datatype event =
    MutexLock mutex
  | MutexUnlock mutex
  | Stdout string
  | Stderr string
  | StoreStopped bool
  | MqSend "32 word" string
  | MqReceive nat
  | MqGetattr
  | MqClose
  | Sigaction
  | PthreadCreate int
  | PthreadKill
  | PthreadJoin

text \<open>
  What the environment answers to a call is not decided by the program. Each kind of
  call has a script: the list of the answers to its successive calls. A failing call
  answers with the value it leaves in \<^verbatim>\<open>errno\<close> (\<^verbatim>\<open>pthread_create\<close>: with its
  return code). A call made when its script is exhausted has not returned: the
  function that made it has the value \<open>None\<close>.
\<close>

datatype send_outcome = SendOk | SendFail int

datatype receive_outcome = ReceiveOk "32 word" string | ReceiveFail int

datatype write_outcome = WriteOk nat | WriteFail int

record mq_attr =
  mq_maxmsg :: int
  mq_msgsize :: int
  mq_curmsgs :: int

datatype getattr_outcome = GetattrOk mq_attr | GetattrFail int

datatype close_outcome = CloseOk | CloseFail int

datatype create_outcome = CreateOk | CreateFail int

text \<open>
  The record holds \<^verbatim>\<open>struct Shared\<close> (\<open>stopped\<close>, \<open>msgsize\<close>,
  \<open>consumerThreadExists\<close>, and of its \<^verbatim>\<open>options\<close> the fields \<open>debug\<close> and
  \<open>queueName\<close>), the buffer \<open>chunk\<close> that \<^verbatim>\<open>serve\<close> passes by reference to every
  handler, the unread rest of standard input, \<^verbatim>\<open>errno\<close>, the trace, the scripts, and
  three parameters of the platform: the text of \<^verbatim>\<open>strerror\<close>, the number of bytes an
  allocation can obtain, and \<^verbatim>\<open>std::string::max_size()\<close>.
\<close>

record world =
  stopped :: bool
  msgsize :: int
  consumerThreadExists :: bool
  debug :: bool
  queueName :: string
  chunk :: string
  cin :: string
  errno :: int
  trace :: "event list"
  mq_send_script :: "send_outcome list"
  mq_receive_script :: "receive_outcome list"
  write_script :: "write_outcome list"
  mq_getattr_script :: "getattr_outcome list"
  mq_close_script :: "close_outcome list"
  pthread_create_script :: "create_outcome list"
  strerror :: "int \<Rightarrow> string"
  memory :: nat
  max_size :: nat

text \<open>
  An exception that nothing catches and a failed \<^verbatim>\<open>assert\<close> end the process; an
  access outside the buffer is undefined behaviour. They are faults. A function of the
  program has a result of type \<open>(fault + int \<times> world) option\<close>: \<open>None\<close> when it has
  not returned, \<open>Some (Inl f)\<close> when the process ended with the fault \<open>f\<close>, and
  \<open>Some (Inr (rc, w))\<close> when it returned \<open>rc\<close> and left the world \<open>w\<close>.
\<close>

datatype fault = LengthError | BadAlloc | AssertionFailed | OutOfBounds

type_synonym result = "(fault + int \<times> world) option"

definition emit :: "event \<Rightarrow> world \<Rightarrow> world" where
  "emit e w = w\<lparr>trace := trace w @ [e]\<rparr>"

subsection \<open>\<^verbatim>\<open>class Lock\<close>\<close>

record lock =
  mutex_of :: mutex
  holding :: bool

definition acquire :: "lock \<Rightarrow> world \<Rightarrow> lock \<times> world" where
  "acquire l w = (if holding l then (l, w)
                  else (l\<lparr>holding := True\<rparr>, emit (MutexLock (mutex_of l)) w))"

definition release :: "lock \<Rightarrow> world \<Rightarrow> lock \<times> world" where
  "release l w = (if \<not> holding l then (l, w)
                  else (l\<lparr>holding := False\<rparr>, emit (MutexUnlock (mutex_of l)) w))"

text \<open>The constructor \<^verbatim>\<open>Lock(mutex, lockOnInit)\<close> and the destructor.\<close>

definition Lock :: "mutex \<Rightarrow> bool \<Rightarrow> world \<Rightarrow> lock \<times> world" where
  "Lock m lockOnInit w =
     (let l = \<lparr>mutex_of = m, holding = False\<rparr>
      in if lockOnInit then acquire l w else (l, w))"

definition Lock_destroy :: "lock \<Rightarrow> world \<Rightarrow> world" where
  "Lock_destroy l w = (if holding l then snd (release l w) else w)"

text \<open>
  The two patterns of the handlers: a block that declares
  \<^verbatim>\<open>Lock lock(shared.stderrMutex, shared.consumerThreadExists)\<close>, writes one line to
  \<^verbatim>\<open>std::cerr\<close> and leaves the block; and the same on \<^verbatim>\<open>std::cout\<close>.
\<close>

definition cerr_locked :: "string \<Rightarrow> world \<Rightarrow> world" where
  "cerr_locked line w =
     (case Lock StderrMutex (consumerThreadExists w) w of
        (l, w1) \<Rightarrow> Lock_destroy l (emit (Stderr (line @ endl)) w1))"

definition cout_locked :: "string \<Rightarrow> world \<Rightarrow> world" where
  "cout_locked line w =
     (case Lock StdoutMutex (consumerThreadExists w) w of
        (l, w1) \<Rightarrow> Lock_destroy l (emit (Stdout (line @ endl)) w1))"

subsection \<open>Formatted input\<close>

text \<open>
  \<^verbatim>\<open>std::cin >> x\<close> for an integer \<open>x\<close>, as \<^verbatim>\<open>num_get\<close> of libstdc++ reads it in
  the classic locale with the base ten: leading white space is skipped, one sign is
  accepted, the digits that follow are consumed. No digit is a failure. The result is
  the sign, the magnitude and the unread rest.
\<close>

definition digits_value :: "string \<Rightarrow> nat" where
  "digits_value ds = foldl (\<lambda>a c. 10 * a + (of_char c - 48)) 0 ds"

definition scan_integer :: "string \<Rightarrow> (bool \<times> nat) option \<times> string" where
  "scan_integer inp =
     (let s0 = dropWhile isspace inp;
          neg = (case s0 of [] \<Rightarrow> False | c # cs \<Rightarrow> c = CHR ''-'');
          s1 = (case s0 of [] \<Rightarrow> []
                | c # cs \<Rightarrow> if c = CHR ''-'' \<or> c = CHR ''+'' then cs else s0);
          ds = takeWhile isdigit s1;
          rest = dropWhile isdigit s1
      in if ds = [] then (None, rest) else (Some (neg, digits_value ds), rest))"

text \<open>
  Into an \<^verbatim>\<open>unsigned\<close>: a magnitude above \<^verbatim>\<open>UINT_MAX\<close> is a failure, and a minus sign
  negates the value modulo \<open>2 ^ 32\<close>.
\<close>

definition extract_unsigned :: "string \<Rightarrow> (32 word) option \<times> string" where
  "extract_unsigned inp =
     (case scan_integer inp of
        (None, rest) \<Rightarrow> (None, rest)
      | (Some (neg, m), rest) \<Rightarrow>
          if m > UINT_MAX then (None, rest)
          else (Some (if neg then - of_nat m else of_nat m), rest))"

text \<open>Into an \<^verbatim>\<open>ssize_t\<close>: a value outside the range of the type is a failure.\<close>

definition extract_ssize :: "string \<Rightarrow> int option \<times> string" where
  "extract_ssize inp =
     (case scan_integer inp of
        (None, rest) \<Rightarrow> (None, rest)
      | (Some (neg, m), rest) \<Rightarrow>
          if neg then (if m > SSIZE_MAX + 1 then (None, rest) else (Some (- int m), rest))
          else (if m > SSIZE_MAX then (None, rest) else (Some (int m), rest)))"

text \<open>
  \<^verbatim>\<open>std::cin >> chunk\<close> for a string: white space is skipped and the characters up to
  the next white space are the token; no character is a failure.
\<close>

definition extract_string :: "string \<Rightarrow> (string \<times> string) option" where
  "extract_string inp =
     (let s0 = dropWhile isspace inp;
          tok = takeWhile (\<lambda>c. \<not> isspace c) s0
      in if tok = [] then None else Some (tok, dropWhile (\<lambda>c. \<not> isspace c) s0))"

text \<open>
  \<^verbatim>\<open>string::resize(n)\<close>: beyond \<^verbatim>\<open>max_size()\<close> it throws \<^verbatim>\<open>length_error\<close>; growing
  beyond what can be allocated throws \<^verbatim>\<open>bad_alloc\<close>; otherwise the string keeps its
  first characters and is filled up with zero bytes.
\<close>

definition string_resize :: "world \<Rightarrow> string \<Rightarrow> nat \<Rightarrow> fault + string" where
  "string_resize w s n =
     (if n > max_size w then Inl LengthError
      else if n > length s \<and> n > memory w then Inl BadAlloc
      else Inr (take n s @ replicate (n - length s) (CHR 0x00)))"

section \<open>The \<^verbatim>\<open>send\<close> handler\<close>

text \<open>
  The retry loop around \<^verbatim>\<open>mq_send\<close>. Each round takes the next answer of the script.
  The message handed to the queue is the first \<open>size\<close> bytes of \<open>chunk\<close>.
\<close>

fun sendLoop :: "32 word \<Rightarrow> int \<Rightarrow> send_outcome list \<Rightarrow> world \<Rightarrow> result" where
  "sendLoop priority sz [] w = None"
| "sendLoop priority sz (answer # script) w =
     (let w1 = emit (MqSend priority (take (nat sz) (chunk w)))
                 (w\<lparr>mq_send_script := script\<rparr>)
      in case answer of
           SendFail error \<Rightarrow>
             if error \<noteq> EINTR
             then Some (Inr (3, cerr_locked
                    (''Unable to send message for '' @ dquote @ ''send'' @ dquote
                       @ '' command: '' @ strerror w1 error)
                    (w1\<lparr>errno := error\<rparr>)))
             else sendLoop priority sz script (w1\<lparr>errno := error\<rparr>)
         | SendOk \<Rightarrow>
             Some (Inr (0, cout_locked (''ack '' @ dec_int sz) w1)))"

definition sendHandler :: "world \<Rightarrow> result" where
  "sendHandler w =
     (case extract_unsigned (cin w) of
        (None, rest1) \<Rightarrow>
          Some (Inr (1, cerr_locked
            (''Unable to read message priority from '' @ dquote @ ''send'' @ dquote
               @ '' command.'')
            (w\<lparr>cin := rest1\<rparr>)))
      | (Some priority, rest1) \<Rightarrow>
         (case extract_ssize rest1 of
            (None, rest2) \<Rightarrow>
              Some (Inr (2, cerr_locked
                (''Unable to read message size from '' @ dquote @ ''send'' @ dquote
                   @ '' command.'')
                (w\<lparr>cin := rest2\<rparr>)))
          | (Some sz, rest2) \<Rightarrow>
              if sz < 0
              then Some (Inr (4, cerr_locked
                     (''Messages must have a non-negative size. Size '' @ dec_int sz
                        @ '' is not permitted.'')
                     (w\<lparr>cin := rest2\<rparr>)))
              else
                let rest3 = drop 1 rest2
                in if sz \<noteq> 0
                   then (case string_resize w (chunk w) (nat sz) of
                           Inl f \<Rightarrow> Some (Inl f)
                         | Inr resized \<Rightarrow>
                            let got = take (nat sz) rest3;
                                w1 = w\<lparr>cin := drop (nat sz) rest3,
                                       chunk := got @ drop (length got) resized\<rparr>
                            in if int (length got) \<noteq> sz
                               then Some (Inr (5, cerr_locked
                                      (''Unable to read from input all of the supposed ''
                                         @ dec_int sz @ '' byte message. ''
                                         @ dec_int (int (length got))
                                         @ '' were read instead.'')
                                      w1))
                               else sendLoop priority sz (mq_send_script w1) w1)
                   else sendLoop priority sz (mq_send_script w) (w\<lparr>cin := rest3\<rparr>)))"

section \<open>The receive engine\<close>

definition FAIL_RECEIVE :: int where
  "FAIL_RECEIVE = 1"

definition FAIL_WRITE :: int where
  "FAIL_WRITE = 2"

definition FAIL_ALLOC :: int where
  "FAIL_ALLOC = 3"

definition FAIL_INTERRUPTED_OR_CLOSED :: int where
  "FAIL_INTERRUPTED_OR_CLOSED = 4"

definition numbersMaxSize :: int where
  "numbersMaxSize = int (digits10 32) + 1 + 1 + int (digits10 63) + 1"

text \<open>
  Arithmetic in \<^verbatim>\<open>double\<close>. A \<^verbatim>\<open>double\<close> is a real number \<open>k * 2 ^ e\<close> with an
  integer \<open>k\<close> of at most 53 bits. \<open>ulp x\<close> is the distance between neighbouring
  numbers of the type at the magnitude of \<open>x\<close>, and \<open>to_double x\<close> is the one nearest
  to \<open>x\<close>, a tie going to the even \<open>k\<close>: the result of a conversion to \<^verbatim>\<open>double\<close> and
  of an arithmetic operation whose exact result is \<open>x\<close>. Overflow and subnormal numbers
  are left out: the values that occur here are 0 or lie between \<open>1 / 4\<close> and
  \<open>2 ^ 64\<close>. \<^verbatim>\<open>std::log10\<close> is taken to return the \<^verbatim>\<open>double\<close> nearest to the
  logarithm.
\<close>

definition ulp :: "real \<Rightarrow> real" where
  "ulp x = 2 powr (of_int \<lfloor>log 2 \<bar>x\<bar>\<rfloor> - 52)"

definition round_to_even :: "real \<Rightarrow> int" where
  "round_to_even m =
     (if m - of_int \<lfloor>m\<rfloor> < 1 / 2 then \<lfloor>m\<rfloor>
      else if 1 / 2 < m - of_int \<lfloor>m\<rfloor> then \<lfloor>m\<rfloor> + 1
      else if even \<lfloor>m\<rfloor> then \<lfloor>m\<rfloor> else \<lfloor>m\<rfloor> + 1)"

definition to_double :: "real \<Rightarrow> real" where
  "to_double x = (if x = 0 then 0 else of_int (round_to_even (x / ulp x)) * ulp x)"

definition log10 :: "real \<Rightarrow> real" where
  "log10 x = to_double (log 10 x)"

text \<open>
  \<^verbatim>\<open>struct SizeBase10\<close>, whose \<^verbatim>\<open>operator()\<close> takes a \<^verbatim>\<open>double\<close>: the sum
  \<^verbatim>\<open>1 + std::log10(number)\<close> is rounded, \<^verbatim>\<open>std::floor\<close> is exact. The two calls
  convert the priority and the size of the message to \<^verbatim>\<open>double\<close>; neither is
  negative.
\<close>

definition sizeBase10 :: "real \<Rightarrow> int" where
  "sizeBase10 number =
     (if number = 0 then 1
      else \<lfloor>to_double (1 + log10 number)\<rfloor> + (if number < 0 then 1 else 0))"

definition numbersExpectedSize :: "32 word \<Rightarrow> int \<Rightarrow> int" where
  "numbersExpectedSize priority msgSize =
     sizeBase10 (to_double (real (unat priority))) + 1
     + sizeBase10 (to_double (real_of_int msgSize)) + 1"

text \<open>The text that \<^verbatim>\<open>snprintf\<close> produces for the format \<^verbatim>\<open>"%u %lld"\<close>.\<close>

definition format_numbers :: "32 word \<Rightarrow> int \<Rightarrow> string" where
  "format_numbers priority msgSize = dec_nat (unat priority) @ '' '' @ dec_int msgSize"

text \<open>
  A store of the bytes \<open>xs\<close> into the buffer at the offset \<open>pos\<close>. A store that does not
  lie within the buffer is the fault \<open>OutOfBounds\<close>.
\<close>

definition store :: "string \<Rightarrow> int \<Rightarrow> string \<Rightarrow> fault + string" where
  "store buffer pos xs =
     (if 0 \<le> pos \<and> pos + int (length xs) \<le> int (length buffer)
      then Inr (take (nat pos) buffer @ xs @ drop (nat pos + length xs) buffer)
      else Inl OutOfBounds)"

text \<open>
  \<^verbatim>\<open>snprintf(buffer + pos, space, ...)\<close> stores at most \<open>space\<close> bytes: as much of the
  text as fits before the terminating zero byte.
\<close>

definition snprintf :: "string \<Rightarrow> int \<Rightarrow> int \<Rightarrow> string \<Rightarrow> fault + string" where
  "snprintf buffer pos space text =
     (if space \<le> 0 then (if 0 \<le> pos then Inr buffer else Inl OutOfBounds)
      else store buffer pos (take (nat space - 1) text @ [CHR 0x00]))"

text \<open>
  \<^verbatim>\<open>mq_receive\<close> with a buffer of \<open>msgBufferSize\<close> bytes: the queue service never
  stores more than the buffer holds; a longer message is the failure \<^verbatim>\<open>EMSGSIZE\<close>.
\<close>

definition mq_receive :: "nat \<Rightarrow> receive_outcome \<Rightarrow> receive_outcome" where
  "mq_receive msgBufferSize answer =
     (case answer of
        ReceiveOk priority payload \<Rightarrow>
          if length payload > msgBufferSize then ReceiveFail EMSGSIZE else answer
      | ReceiveFail error \<Rightarrow> answer)"

text \<open>A line of the \<^verbatim>\<open>--debug\<close> trace: \<^verbatim>\<open>if (shared.options.debug) { Lock ...; std::cerr << ... }\<close>.\<close>

definition cerr_debug :: "string \<Rightarrow> world \<Rightarrow> world" where
  "cerr_debug line w = (if debug w then cerr_locked line w else w)"

text \<open>
  The loop around \<^verbatim>\<open>write\<close>. \<open>output\<close> is the region of \<open>outputSize\<close> bytes that
  begins at \<open>outputBegin\<close>; \<open>written\<close> is the loop variable. An answer \<open>WriteOk n\<close>
  means that the call accepted \<open>n\<close> bytes (at most the number asked for). Every call
  is \<^verbatim>\<open>write(stdoutFd, outputBegin, outputSize)\<close>, so it hands over a prefix of
  \<open>output\<close>.
\<close>

fun writeLoop :: "string \<Rightarrow> int \<Rightarrow> write_outcome list \<Rightarrow> lock \<Rightarrow> world \<Rightarrow> result" where
  "writeLoop output written [] stdoutLock w =
     (if written = int (length output) then Some (Inr (0, Lock_destroy stdoutLock w))
      else None)"
| "writeLoop output written (answer # script) stdoutLock w =
     (if written = int (length output) then Some (Inr (0, Lock_destroy stdoutLock w))
      else case answer of
             WriteFail error \<Rightarrow>
               let w1 = w\<lparr>write_script := script, errno := error\<rparr>
               in if error = EINTR then writeLoop output written script stdoutLock w1
                  else (case release stdoutLock w1 of
                          (stdoutLock1, w2) \<Rightarrow>
                            Some (Inr (FAIL_WRITE,
                              Lock_destroy stdoutLock1
                                (cerr_locked
                                   (''Failed to return message: '' @ strerror w error) w2))))
           | WriteOk n \<Rightarrow>
               let rc = min n (length output);
                   w1 = emit (Stdout (take rc output)) (w\<lparr>write_script := script\<rparr>)
               in writeLoop output (written + int rc) script stdoutLock w1)"

text \<open>
  The second half of \<^verbatim>\<open>doReceive\<close>, from the store of the newline on: \<open>buffer\<close>
  holds the payload of \<open>msgSize\<close> bytes at the offset \<open>numbersMaxSize\<close>. The
  source asserts that \<open>numbersSize\<close> is \<open>numbersExpectedSize\<close>. A region handed to
  \<^verbatim>\<open>write\<close> that does not lie within the buffer is the fault \<open>OutOfBounds\<close>.
\<close>

definition printMessage :: "32 word \<Rightarrow> int \<Rightarrow> string \<Rightarrow> world \<Rightarrow> result" where
  "printMessage priority msgSize buffer w =
     (case store buffer (numbersMaxSize + msgSize) endl of
        Inl f \<Rightarrow> Some (Inl f)
      | Inr buffer1 \<Rightarrow>
         let expected = numbersExpectedSize priority msgSize;
             w1 = cerr_debug (''calculated numbersExpectedSize='' @ dec_int expected) w;
             numbersBegin = numbersMaxSize - expected;
             spaceRemaining = int (length buffer1) - numbersBegin;
             formatted = format_numbers priority msgSize
         in (case snprintf buffer1 numbersBegin spaceRemaining formatted of
               Inl f \<Rightarrow> Some (Inl f)
             | Inr buffer2 \<Rightarrow>
                let numbersSize = int (length formatted) + 1;
                    w2 = cerr_debug (''measured numbersSize='' @ dec_int numbersSize) w1
                in if numbersSize \<noteq> expected then Some (Inl AssertionFailed)
                   else (case store buffer2 (numbersBegin + numbersSize - 1) '' '' of
                           Inl f \<Rightarrow> Some (Inl f)
                         | Inr buffer3 \<Rightarrow>
                            let outputSize = numbersSize + msgSize + 1
                            in if numbersBegin + outputSize > int (length buffer3)
                               then Some (Inl OutOfBounds)
                               else (case Lock StdoutMutex (consumerThreadExists w2) w2 of
                                       (stdoutLock, w3) \<Rightarrow>
                                         writeLoop
                                           (take (nat outputSize)
                                              (drop (nat numbersBegin) buffer3))
                                           0 (write_script w3) stdoutLock
                                           (w3\<lparr>chunk := buffer3\<rparr>)))))"

text \<open>
  \<^verbatim>\<open>doReceive(buffer, shared)\<close>, called with \<open>chunk\<close> for \<open>buffer\<close>. The sizes that
  the source converts to \<^verbatim>\<open>size_t\<close> are taken modulo \<open>2 ^ 64\<close>.
\<close>

definition doReceive :: "world \<Rightarrow> result" where
  "doReceive w =
     (case string_resize w (chunk w) (nat ((numbersMaxSize + msgsize w + 1) mod 2 ^ 64)) of
        Inl BadAlloc \<Rightarrow>
          Some (Inr (FAIL_ALLOC,
            cerr_locked ''Failed to allocate memory for consuming messages.'' w))
      | Inl f \<Rightarrow> Some (Inl f)
      | Inr buffer \<Rightarrow>
         if buffer = [] then Some (Inl AssertionFailed)
         else if int (length buffer) < numbersMaxSize then Some (Inl AssertionFailed)
         else
           let msgBufferSize = nat ((int (length buffer) - numbersMaxSize - 1) mod 2 ^ 64);
               w1 = cerr_debug
                      (''About to receive with buffer.size()='' @ dec_nat (length buffer)
                         @ '' numbersMaxSize='' @ dec_int numbersMaxSize
                         @ '' msgBufferSize='' @ dec_nat msgBufferSize
                         @ '' shared.msgsize='' @ dec_int (msgsize w))
                      (w\<lparr>chunk := buffer\<rparr>)
           in (case mq_receive_script w1 of
                 [] \<Rightarrow> None
               | answer # script \<Rightarrow>
                  let w2 = emit (MqReceive msgBufferSize) (w1\<lparr>mq_receive_script := script\<rparr>)
                  in (case mq_receive msgBufferSize answer of
                        ReceiveFail error \<Rightarrow>
                          if error = EINTR \<or> error = EBADF
                          then Some (Inr (FAIL_INTERRUPTED_OR_CLOSED, w2\<lparr>errno := error\<rparr>))
                          else Some (Inr (FAIL_RECEIVE,
                                 cerr_locked
                                   (''Failed to receive message: '' @ strerror w error)
                                   (w2\<lparr>errno := error\<rparr>)))
                      | ReceiveOk priority payload \<Rightarrow>
                         (case store buffer numbersMaxSize payload of
                            Inl f \<Rightarrow> Some (Inl f)
                          | Inr buffer1 \<Rightarrow>
                             let msgSize = int (length payload);
                                 w3 = cerr_debug
                                        (''received a priority '' @ dec_nat (unat priority)
                                           @ '' message of size '' @ dec_int msgSize)
                                        (w2\<lparr>chunk := buffer1\<rparr>)
                             in printMessage priority msgSize buffer1 w3))))"

subsection \<open>Facts about the receive engine needed to define its callers\<close>

lemma cerr_locked_eq:
  "cerr_locked line w =
     w\<lparr>trace := trace w @
        (if consumerThreadExists w
         then [MutexLock StderrMutex, Stderr (line @ endl), MutexUnlock StderrMutex]
         else [Stderr (line @ endl)])\<rparr>"
  by (simp add: cerr_locked_def Lock_def Lock_destroy_def acquire_def release_def emit_def)

lemma cout_locked_eq:
  "cout_locked line w =
     w\<lparr>trace := trace w @
        (if consumerThreadExists w
         then [MutexLock StdoutMutex, Stdout (line @ endl), MutexUnlock StdoutMutex]
         else [Stdout (line @ endl)])\<rparr>"
  by (simp add: cout_locked_def Lock_def Lock_destroy_def acquire_def release_def emit_def)

lemma cerr_debug_eq:
  "cerr_debug line w =
     w\<lparr>trace := trace w @
        (if debug w
         then (if consumerThreadExists w
               then [MutexLock StderrMutex, Stderr (line @ endl), MutexUnlock StderrMutex]
               else [Stderr (line @ endl)])
         else [])\<rparr>"
  by (simp add: cerr_debug_def cerr_locked_eq)

lemma writeLoop_rc:
  "writeLoop output written script l w = Some (Inr (rc, w')) \<Longrightarrow> rc = 0 \<or> rc = FAIL_WRITE"
proof (induction script arbitrary: written w)
  case Nil
  then show ?case by (simp split: if_splits)
next
  case (Cons answer script)
  show ?case
  proof (cases "written = int (length output)")
    case True
    with Cons.prems show ?thesis by simp
  next
    case False
    show ?thesis
    proof (cases answer)
      case (WriteOk n)
      with False Cons.prems Cons.IH show ?thesis by (simp add: Let_def)
    next
      case (WriteFail error)
      with False Cons.prems Cons.IH show ?thesis
        by (cases "error = EINTR") (auto simp: Let_def split: prod.splits)
    qed
  qed
qed

lemma printMessage_rc:
  assumes "printMessage priority msgSize buffer w = Some (Inr (rc, w'))"
  shows "rc = 0 \<or> rc = FAIL_WRITE"
  using assms
  by (auto simp: printMessage_def Let_def split: sum.splits if_splits prod.splits
           dest: writeLoop_rc)

lemma doReceive_retry_shrinks:
  assumes "doReceive w = Some (Inr (FAIL_INTERRUPTED_OR_CLOSED, w'))"
  shows "length (mq_receive_script w') < length (mq_receive_script w)"
  using assms
  by (auto simp: doReceive_def Let_def cerr_debug_eq cerr_locked_eq emit_def
                 FAIL_INTERRUPTED_OR_CLOSED_def FAIL_ALLOC_def FAIL_RECEIVE_def FAIL_WRITE_def
           split: sum.splits fault.splits if_splits list.splits receive_outcome.splits
           dest!: printMessage_rc)

section \<open>The \<^verbatim>\<open>receive\<close> handler\<close>

function receiveHandler :: "world \<Rightarrow> result" where
  "receiveHandler w =
     (case doReceive w of
        Some (Inr (rc, w1)) \<Rightarrow>
          if rc \<noteq> FAIL_INTERRUPTED_OR_CLOSED then Some (Inr (rc, w1))
          else receiveHandler w1
      | other \<Rightarrow> other)"
  by pat_completeness auto
termination
  by (relation "measure (\<lambda>w. length (mq_receive_script w))")
     (auto dest: doReceive_retry_shrinks)

declare receiveHandler.simps [simp del]

section \<open>The \<^verbatim>\<open>consume\<close> handler\<close>

text \<open>
  The handler installs the signal action, sets \<open>consumerThreadExists\<close>, calls
  \<^verbatim>\<open>pthread_create\<close> and, when that fails, resets the flag and reports. The event
  \<open>PthreadCreate rc\<close> carries the return code of the call: a thread runs from then on
  exactly when \<open>rc = 0\<close>. The body of the thread runs concurrently and is not part of
  this model.
\<close>

definition pthread_create_rc :: "create_outcome \<Rightarrow> int" where
  "pthread_create_rc answer = (case answer of CreateOk \<Rightarrow> 0 | CreateFail rc \<Rightarrow> rc)"

definition consumeHandler :: "world \<Rightarrow> result" where
  "consumeHandler w =
     (let w1 = (emit Sigaction w)\<lparr>consumerThreadExists := True\<rparr>
      in case pthread_create_script w1 of
           [] \<Rightarrow> None
         | answer # script \<Rightarrow>
             let rc = pthread_create_rc answer;
                 w2 = emit (PthreadCreate rc) (w1\<lparr>pthread_create_script := script\<rparr>)
             in if rc \<noteq> 0
                then Some (Inr (rc,
                       emit (Stderr (''Unable to create consumer thread: ''
                                       @ strerror w2 (errno w2) @ endl))
                         (w2\<lparr>consumerThreadExists := False\<rparr>)))
                else Some (Inr (rc, w2)))"

section \<open>The \<^verbatim>\<open>count\<close>, \<^verbatim>\<open>msgsize\<close> and \<^verbatim>\<open>maxmsg\<close> handlers\<close>

text \<open>\<^verbatim>\<open>mq_getattr\<close> returns 0, or -1 with \<^verbatim>\<open>errno\<close> set.\<close>

definition mq_getattr_rc :: "getattr_outcome \<Rightarrow> int" where
  "mq_getattr_rc answer = (case answer of GetattrOk attributes \<Rightarrow> 0 | GetattrFail error \<Rightarrow> - 1)"

definition countHandler :: "world \<Rightarrow> result" where
  "countHandler w =
     (case mq_getattr_script w of
        [] \<Rightarrow> None
      | answer # script \<Rightarrow>
          let w1 = emit MqGetattr (w\<lparr>mq_getattr_script := script\<rparr>)
          in case answer of
               GetattrFail error \<Rightarrow>
                 Some (Inr (mq_getattr_rc answer,
                   emit (Stderr (''Unable to get queue attributes to query message count: ''
                                   @ strerror w error @ endl))
                     (w1\<lparr>errno := error\<rparr>)))
             | GetattrOk attributes \<Rightarrow>
                 Some (Inr (0, cout_locked (''count '' @ dec_int (mq_curmsgs attributes)) w1)))"

definition msgsizeHandler :: "world \<Rightarrow> result" where
  "msgsizeHandler w =
     (case mq_getattr_script w of
        [] \<Rightarrow> None
      | answer # script \<Rightarrow>
          let w1 = emit MqGetattr (w\<lparr>mq_getattr_script := script\<rparr>)
          in case answer of
               GetattrFail error \<Rightarrow>
                 Some (Inr (mq_getattr_rc answer,
                   cerr_locked (''Unable to get queue attributes to report msgsize: ''
                                  @ strerror w error)
                     (w1\<lparr>errno := error\<rparr>)))
             | GetattrOk attributes \<Rightarrow>
                 Some (Inr (0, cout_locked (''msgsize '' @ dec_int (mq_msgsize attributes)) w1)))"

definition maxmsgHandler :: "world \<Rightarrow> result" where
  "maxmsgHandler w =
     (case mq_getattr_script w of
        [] \<Rightarrow> None
      | answer # script \<Rightarrow>
          let w1 = emit MqGetattr (w\<lparr>mq_getattr_script := script\<rparr>)
          in case answer of
               GetattrFail error \<Rightarrow>
                 Some (Inr (mq_getattr_rc answer,
                   cerr_locked (''Unable to get queue attributes to report maxmsg: ''
                                  @ strerror w error)
                     (w1\<lparr>errno := error\<rparr>)))
             | GetattrOk attributes \<Rightarrow>
                 Some (Inr (0, cout_locked (''maxmsg '' @ dec_int (mq_maxmsg attributes)) w1)))"

section \<open>The \<^verbatim>\<open>close\<close> handler\<close>

text \<open>\<^verbatim>\<open>mq_close\<close> returns 0, or -1 with \<^verbatim>\<open>errno\<close> set.\<close>

definition mq_close_rc :: "close_outcome \<Rightarrow> int" where
  "mq_close_rc answer = (case answer of CloseOk \<Rightarrow> 0 | CloseFail error \<Rightarrow> - 1)"

definition closeHandler :: "world \<Rightarrow> result" where
  "closeHandler w =
     (case Lock StoppedMutex (consumerThreadExists w) w of
        (stoppedLock, w1) \<Rightarrow>
          let w2 = emit (StoreStopped True) (w1\<lparr>stopped := True\<rparr>)
          in case mq_close_script w2 of
               [] \<Rightarrow> None
             | answer # script \<Rightarrow>
                 let w3 = emit MqClose (w2\<lparr>mq_close_script := script\<rparr>);
                     rc = mq_close_rc answer;
                     w4 = (case answer of
                             CloseOk \<Rightarrow> w3
                           | CloseFail error \<Rightarrow>
                               cerr_locked (''Unable to close the message queue: ''
                                              @ strerror w error)
                                 (w3\<lparr>errno := error\<rparr>));
                     w5 = (if consumerThreadExists w4 then emit PthreadKill w4 else w4)
                 in Some (Inr (rc, Lock_destroy stoppedLock w5)))"

section \<open>\<^verbatim>\<open>repr\<close>\<close>

text \<open>
  \<^verbatim>\<open>repr.cpp\<close>: the string in double quotes with its characters escaped. \<^verbatim>\<open>char\<close> is
  signed on the platform, so for a byte from 128 on \<^verbatim>\<open>(unsigned int)ch\<close> has eight
  hexadecimal digits and \<^verbatim>\<open>assert(rc == 2)\<close> fails.
\<close>

definition isgraph :: "char \<Rightarrow> bool" where
  "isgraph c = (33 \<le> (of_char c :: nat) \<and> (of_char c :: nat) \<le> 126)"

definition hex_digit :: "nat \<Rightarrow> char" where
  "hex_digit d = ''0123456789abcdef'' ! d"

definition backslash :: string where
  "backslash = [CHR 0x5C]"

definition repr_char :: "char \<Rightarrow> fault + string" where
  "repr_char ch =
     (if isgraph ch then Inr ((if ch = CHR 0x22 then backslash else []) @ [ch])
      else if ch = CHR '' '' then Inr [ch]
      else if ch = CHR 0x07 then Inr (backslash @ ''a'')
      else if ch = CHR 0x08 then Inr (backslash @ ''b'')
      else if ch = CHR 0x0C then Inr (backslash @ ''f'')
      else if ch = CHR 0x0A then Inr (backslash @ ''n'')
      else if ch = CHR 0x0D then Inr (backslash @ ''r'')
      else if ch = CHR 0x09 then Inr (backslash @ ''t'')
      else if ch = CHR 0x0B then Inr (backslash @ ''v'')
      else if (of_char ch :: nat) \<ge> 128 then Inl AssertionFailed
      else Inr (backslash @ ''x''
                  @ [hex_digit ((of_char ch :: nat) div 16), hex_digit ((of_char ch :: nat) mod 16)]))"

fun repr_chars :: "string \<Rightarrow> fault + string" where
  "repr_chars [] = Inr []"
| "repr_chars (ch # rest) =
     (case repr_char ch of
        Inl f \<Rightarrow> Inl f
      | Inr escaped \<Rightarrow>
          (case repr_chars rest of Inl f \<Rightarrow> Inl f | Inr tail \<Rightarrow> Inr (escaped @ tail)))"

definition repr :: "string \<Rightarrow> fault + string" where
  "repr input =
     (case repr_chars input of Inl f \<Rightarrow> Inl f | Inr body \<Rightarrow> Inr (dquote @ body @ dquote))"

section \<open>The command loop and \<^verbatim>\<open>serve\<close>\<close>

text \<open>The chain of \<^verbatim>\<open>HANDLE_COMMAND\<close>: the handler of a verb, if it has one.\<close>

definition handler_of :: "string \<Rightarrow> (world \<Rightarrow> result) option" where
  "handler_of verb =
     (if verb = ''send'' then Some sendHandler
      else if verb = ''receive'' then Some receiveHandler
      else if verb = ''consume'' then Some consumeHandler
      else if verb = ''count'' then Some countHandler
      else if verb = ''msgsize'' then Some msgsizeHandler
      else if verb = ''maxmsg'' then Some maxmsgHandler
      else None)"

subsection \<open>No handler gives input back\<close>

lemma scan_integer_rest: "scan_integer inp = (r, rest) \<Longrightarrow> length rest \<le> length inp"
proof -
  assume a: "scan_integer inp = (r, rest)"
  define s0 where "s0 = dropWhile isspace inp"
  define s1 where "s1 = (case s0 of [] \<Rightarrow> []
                | c # cs \<Rightarrow> if c = CHR ''-'' \<or> c = CHR ''+'' then cs else s0)"
  have r: "rest = dropWhile isdigit s1"
    using a unfolding scan_integer_def s0_def s1_def by (simp add: Let_def split: if_splits)
  have "length s1 \<le> length s0"
    unfolding s1_def by (cases s0) auto
  moreover have "length s0 \<le> length inp"
    unfolding s0_def by (rule length_dropWhile_le)
  moreover have "length rest \<le> length s1"
    unfolding r by (rule length_dropWhile_le)
  ultimately show ?thesis by linarith
qed

lemma extract_unsigned_rest: "extract_unsigned inp = (r, rest) \<Longrightarrow> length rest \<le> length inp"
  by (auto simp: extract_unsigned_def split: prod.splits option.splits if_splits
           dest: scan_integer_rest)

lemma extract_ssize_rest: "extract_ssize inp = (r, rest) \<Longrightarrow> length rest \<le> length inp"
  by (auto simp: extract_ssize_def split: prod.splits option.splits if_splits
           dest: scan_integer_rest)

lemma extract_string_rest:
  assumes "extract_string inp = Some (verb, rest)"
  shows "length rest < length inp"
proof -
  define s0 where "s0 = dropWhile isspace inp"
  have tok: "takeWhile (\<lambda>c. \<not> isspace c) s0 \<noteq> []"
    and r: "rest = dropWhile (\<lambda>c. \<not> isspace c) s0"
    using assms unfolding extract_string_def s0_def by (auto simp: Let_def split: if_splits)
  have "length (takeWhile (\<lambda>c. \<not> isspace c) s0) + length rest = length s0"
    unfolding r by (metis length_append takeWhile_dropWhile_id)
  moreover have "length (takeWhile (\<lambda>c. \<not> isspace c) s0) > 0"
    using tok by simp
  moreover have "length s0 \<le> length inp"
    unfolding s0_def by (rule length_dropWhile_le)
  ultimately show ?thesis by linarith
qed

lemma sendLoop_cin:
  "sendLoop priority sz script w = Some (Inr (rc, w')) \<Longrightarrow> cin w' = cin w"
proof (induction script arbitrary: w)
  case Nil
  then show ?case by simp
next
  case (Cons answer script)
  show ?case
  proof (cases answer)
    case SendOk
    with Cons.prems show ?thesis by (auto simp: Let_def cout_locked_eq emit_def)
  next
    case (SendFail error)
    show ?thesis
    proof (cases "error = EINTR")
      case True
      with SendFail Cons.prems
      have "sendLoop priority sz script
              ((emit (MqSend priority (take (nat sz) (chunk w)))
                  (w\<lparr>mq_send_script := script\<rparr>))\<lparr>errno := error\<rparr>) = Some (Inr (rc, w'))"
        by (simp add: Let_def)
      from Cons.IH [OF this] show ?thesis by (simp add: emit_def)
    next
      case False
      with SendFail Cons.prems show ?thesis by (auto simp: Let_def cerr_locked_eq emit_def)
    qed
  qed
qed

lemma sendHandler_cin:
  assumes "sendHandler w = Some (Inr (rc, w'))"
  shows "length (cin w') \<le> length (cin w)"
proof (cases "extract_unsigned (cin w)")
  case (Pair p rest1)
  note r1 = extract_unsigned_rest [OF Pair]
  show ?thesis
  proof (cases p)
    case None
    with Pair assms r1 show ?thesis by (auto simp: sendHandler_def cerr_locked_eq)
  next
    case (Some priority)
    show ?thesis
    proof (cases "extract_ssize rest1")
      case (Pair q rest2)
      note r2 = extract_ssize_rest [OF Pair]
      show ?thesis
      proof (cases q)
        case None
        with \<open>extract_unsigned (cin w) = (p, rest1)\<close> Some Pair assms r1 r2 show ?thesis
          by (auto simp: sendHandler_def cerr_locked_eq)
      next
        case sz: (Some sz)
        from \<open>extract_unsigned (cin w) = (p, rest1)\<close> Some Pair sz assms r1 r2 show ?thesis
          by (auto simp: sendHandler_def cerr_locked_eq Let_def
                   split: if_splits sum.splits dest!: sendLoop_cin)
      qed
    qed
  qed
qed

lemma writeLoop_cin:
  "writeLoop output written script l w = Some (Inr (rc, w')) \<Longrightarrow> cin w' = cin w"
proof (induction script arbitrary: written w)
  case Nil
  then show ?case
    by (auto simp: Lock_destroy_def release_def emit_def split: if_splits)
next
  case (Cons answer script)
  show ?case
  proof (cases "written = int (length output)")
    case True
    with Cons.prems show ?thesis
      by (auto simp: Lock_destroy_def release_def emit_def split: if_splits)
  next
    case False
    show ?thesis
    proof (cases answer)
      case (WriteOk n)
      with False Cons.prems
      have "writeLoop output (written + int (min n (length output))) script l
              (emit (Stdout (take (min n (length output)) output)) (w\<lparr>write_script := script\<rparr>))
            = Some (Inr (rc, w'))"
        by (simp add: Let_def)
      from Cons.IH [OF this] show ?thesis by (simp add: emit_def)
    next
      case (WriteFail error)
      show ?thesis
      proof (cases "error = EINTR")
        case True
        with WriteFail False Cons.prems
        have "writeLoop output written script l (w\<lparr>write_script := script, errno := error\<rparr>)
              = Some (Inr (rc, w'))"
          by (simp add: Let_def)
        from Cons.IH [OF this] show ?thesis by simp
      next
        case ne: False
        with WriteFail False Cons.prems show ?thesis
          by (auto simp: Let_def Lock_destroy_def release_def emit_def cerr_locked_eq
                   split: if_splits prod.splits)
      qed
    qed
  qed
qed

lemma printMessage_cin:
  assumes "printMessage priority msgSize buffer w = Some (Inr (rc, w'))"
  shows "cin w' = cin w"
  using assms
  by (auto simp: printMessage_def Let_def cerr_debug_eq Lock_def acquire_def emit_def
           split: sum.splits if_splits prod.splits dest!: writeLoop_cin)

lemma doReceive_cin:
  assumes "doReceive w = Some (Inr (rc, w'))"
  shows "cin w' = cin w"
  using assms
  by (auto simp: doReceive_def Let_def cerr_debug_eq cerr_locked_eq emit_def
           split: sum.splits fault.splits if_splits list.splits receive_outcome.splits
           dest!: printMessage_cin)

lemma receiveHandler_cin:
  "receiveHandler w = Some (Inr (rc, w')) \<Longrightarrow> cin w' = cin w"
proof (induction w rule: receiveHandler.induct)
  case (1 w)
  show ?case
  proof (cases "doReceive w")
    case None
    with "1.prems" show ?thesis by (simp add: receiveHandler.simps [of w])
  next
    case (Some r)
    show ?thesis
    proof (cases r)
      case (Inl f)
      with Some "1.prems" show ?thesis by (simp add: receiveHandler.simps [of w])
    next
      case (Inr p)
      obtain rc1 w1 where p: "p = (rc1, w1)" by (cases p)
      have d: "doReceive w = Some (Inr (rc1, w1))" using Some Inr p by simp
      show ?thesis
      proof (cases "rc1 = FAIL_INTERRUPTED_OR_CLOSED")
        case True
        with d "1.prems" have "receiveHandler w1 = Some (Inr (rc, w'))"
          by (simp add: receiveHandler.simps [of w])
        from "1.IH" [OF d refl refl _ this] True have "cin w' = cin w1" by simp
        with doReceive_cin [OF d] show ?thesis by simp
      next
        case False
        with d "1.prems" have "w' = w1" by (simp add: receiveHandler.simps [of w])
        with doReceive_cin [OF d] show ?thesis by simp
      qed
    qed
  qed
qed

lemma handler_cin:
  assumes "handler_of verb = Some handler" and "handler w = Some (Inr (rc, w'))"
  shows "length (cin w') \<le> length (cin w)"
proof -
  consider "handler = sendHandler" | "handler = receiveHandler" | "handler = consumeHandler"
    | "handler = countHandler" | "handler = msgsizeHandler" | "handler = maxmsgHandler"
    using assms(1) by (auto simp: handler_of_def split: if_splits)
  then show ?thesis
  proof cases
    case 1
    with assms(2) show ?thesis by (simp add: sendHandler_cin)
  next
    case 2
    with assms(2) show ?thesis by (simp add: receiveHandler_cin)
  next
    case 3
    with assms(2) show ?thesis
      by (auto simp: consumeHandler_def Let_def emit_def split: list.splits if_splits)
  next
    case 4
    with assms(2) show ?thesis
      by (auto simp: countHandler_def Let_def emit_def cout_locked_eq
               split: list.splits getattr_outcome.splits)
  next
    case 5
    with assms(2) show ?thesis
      by (auto simp: msgsizeHandler_def Let_def emit_def cout_locked_eq cerr_locked_eq
               split: list.splits getattr_outcome.splits)
  next
    case 6
    with assms(2) show ?thesis
      by (auto simp: maxmsgHandler_def Let_def emit_def cout_locked_eq cerr_locked_eq
               split: list.splits getattr_outcome.splits)
  qed
qed

text \<open>
  The \<^verbatim>\<open>while (std::cin >> chunk)\<close> loop of \<^verbatim>\<open>serve\<close>. Its result is
  \<open>commandResult\<close>.
\<close>

function commandLoop :: "world \<Rightarrow> result" where
  "commandLoop w =
     (case extract_string (cin w) of
        None \<Rightarrow> Some (Inr (0, w))
      | Some (verb, rest) \<Rightarrow>
          (case handler_of verb of
             Some handler \<Rightarrow>
               (case handler (w\<lparr>cin := rest, chunk := verb\<rparr>) of
                  Some (Inr (rc, w2)) \<Rightarrow>
                    if rc \<noteq> 0 then Some (Inr (rc, w2)) else commandLoop w2
                | other \<Rightarrow> other)
           | None \<Rightarrow>
               if verb = ''close'' then Some (Inr (0, w\<lparr>cin := rest, chunk := verb\<rparr>))
               else Some (Inr (1,
                      cerr_locked (''Unknown command '' @ dquote @ verb @ dquote)
                        (w\<lparr>cin := rest, chunk := verb\<rparr>)))))"
  by pat_completeness auto
termination
proof (relation "measure (\<lambda>w. length (cin w))")
  show "wf (measure (\<lambda>w. length (cin w)))" by simp
next
  fix w :: world and x2 verb rest handler x2a b rc w2
  assume e: "extract_string (cin w) = Some x2" "(verb, rest) = x2"
    and h: "handler_of verb = Some handler"
    and r: "handler (w\<lparr>cin := rest, chunk := verb\<rparr>) = Some x2a" "x2a = Inr b" "(rc, w2) = b"
  from e have "length rest < length (cin w)" by (auto dest: extract_string_rest)
  moreover from h r have "length (cin w2) \<le> length (cin (w\<lparr>cin := rest, chunk := verb\<rparr>))"
    by (auto dest: handler_cin)
  ultimately show "(w2, w) \<in> measure (\<lambda>w. length (cin w))" by simp
qed

declare commandLoop.simps [simp del]

text \<open>
  \<^verbatim>\<open>serve\<close>, in three parts: the line of the \<^verbatim>\<open>--debug\<close> trace that reports the
  attributes (it calls \<^verbatim>\<open>repr\<close>, which can fail its assertion); the constructor of
  \<^verbatim>\<open>Shared\<close>; and the function itself. The destructor of \<^verbatim>\<open>ThreadJoinGuard\<close> joins
  the consumer thread on return.
\<close>

definition report_attributes :: "mq_attr \<Rightarrow> world \<Rightarrow> fault + world" where
  "report_attributes attributes w =
     (if debug w
      then (case repr (queueName w) of
              Inl f \<Rightarrow> Inl f
            | Inr name \<Rightarrow>
                Inr (emit (Stderr
                  (''Got the following attributes for message queue ''
                     @ name @ '':  mq_maxmsg='' @ dec_int (mq_maxmsg attributes)
                     @ '' mq_msgsize='' @ dec_int (mq_msgsize attributes)
                     @ '' mq_curmsgs='' @ dec_int (mq_curmsgs attributes)
                     @ endl)) w))
      else Inr w)"

definition Shared :: "mq_attr \<Rightarrow> world \<Rightarrow> world" where
  "Shared attributes w =
     w\<lparr>stopped := False, msgsize := mq_msgsize attributes, consumerThreadExists := False\<rparr>"

definition serve :: "world \<Rightarrow> result" where
  "serve w =
     (case mq_getattr_script w of
        [] \<Rightarrow> None
      | answer # script \<Rightarrow>
          let w1 = emit MqGetattr (w\<lparr>mq_getattr_script := script\<rparr>)
          in case answer of
               GetattrFail error \<Rightarrow>
                 Some (Inr (mq_getattr_rc answer,
                   emit (Stderr (''Unable to get queue attributes initially: ''
                                   @ strerror w error @ endl))
                     (w1\<lparr>errno := error\<rparr>)))
             | GetattrOk attributes \<Rightarrow>
                (case report_attributes attributes w1 of
                   Inl f \<Rightarrow> Some (Inl f)
                 | Inr w2 \<Rightarrow>
                    (case commandLoop (Shared attributes w2) of
                       Some (Inr (commandResult, w3)) \<Rightarrow>
                         (case closeHandler w3 of
                            Some (Inr (closeResult, w4)) \<Rightarrow>
                              Some (Inr (if commandResult \<noteq> 0 then commandResult
                                         else closeResult,
                                         if consumerThreadExists w4 then emit PthreadJoin w4
                                         else w4))
                          | other \<Rightarrow> other)
                     | other \<Rightarrow> other)))"

section \<open>Observations\<close>

text \<open>
  What a run shows: the return code and the trace; and of a trace, the messages handed
  to \<^verbatim>\<open>mq_send\<close>, the lines written to standard error and the byte strings
  written to standard output.
\<close>

definition outcome :: "result \<Rightarrow> (fault + int \<times> event list) option" where
  "outcome r =
     (case r of
        None \<Rightarrow> None
      | Some (Inl f) \<Rightarrow> Some (Inl f)
      | Some (Inr (rc, w)) \<Rightarrow> Some (Inr (rc, trace w)))"

definition mq_sends :: "event list \<Rightarrow> (32 word \<times> string) list" where
  "mq_sends tr = concat (map (\<lambda>e. case e of MqSend p m \<Rightarrow> [(p, m)] | _ \<Rightarrow> []) tr)"

definition stderr_lines :: "event list \<Rightarrow> string list" where
  "stderr_lines tr = concat (map (\<lambda>e. case e of Stderr s \<Rightarrow> [s] | _ \<Rightarrow> []) tr)"

definition stdout_writes :: "event list \<Rightarrow> string list" where
  "stdout_writes tr = concat (map (\<lambda>e. case e of Stdout s \<Rightarrow> [s] | _ \<Rightarrow> []) tr)"

text \<open>A world to run examples in: a session with no consumer thread and empty scripts.\<close>

definition world0 :: world where
  "world0 = \<lparr>stopped = False, msgsize = 8192, consumerThreadExists = False, debug = False,
             queueName = ''/queue'', chunk = [], cin = [], errno = 0, trace = [],
             mq_send_script = [], mq_receive_script = [], write_script = [],
             mq_getattr_script = [], mq_close_script = [], pthread_create_script = [],
             strerror = (\<lambda>e. ''errno '' @ dec_int e), memory = 2 ^ 32, max_size = 2 ^ 62\<rparr>"

lemma world0_fields [simp]:
  "stopped world0 = False" "msgsize world0 = 8192" "consumerThreadExists world0 = False"
  "debug world0 = False" "queueName world0 = ''/queue''" "chunk world0 = []" "cin world0 = []"
  "errno world0 = 0" "trace world0 = []" "mq_send_script world0 = []"
  "mq_receive_script world0 = []" "write_script world0 = []" "mq_getattr_script world0 = []"
  "mq_close_script world0 = []" "pthread_create_script world0 = []"
  "strerror world0 e = ''errno '' @ dec_int e" "memory world0 = 2 ^ 32"
  "max_size world0 = 2 ^ 62"
  by (simp_all add: world0_def)

text \<open>
  The events of one write made in the scope of a \<^verbatim>\<open>Lock\<close> that was constructed with
  \<open>lockOnInit = held\<close>: the mutex is locked around the write exactly when \<open>held\<close>.
\<close>

definition guarded :: "bool \<Rightarrow> mutex \<Rightarrow> event \<Rightarrow> event list" where
  "guarded held m e = (if held then [MutexLock m, e, MutexUnlock m] else [e])"

text \<open>An answer of \<^verbatim>\<open>mq_send\<close> is transient when it is the failure \<^verbatim>\<open>EINTR\<close>.\<close>

definition transient :: "send_outcome \<Rightarrow> bool" where
  "transient answer = (answer = SendFail EINTR)"

text \<open>The events of one line of the \<^verbatim>\<open>--debug\<close> trace.\<close>

definition debug_events :: "bool \<Rightarrow> bool \<Rightarrow> string \<Rightarrow> event list" where
  "debug_events dbg held line =
     (if dbg then guarded held StderrMutex (Stderr (line @ endl)) else [])"

text \<open>The number of calls of \<^verbatim>\<open>mq_close\<close> in a trace.\<close>

definition closes :: "event list \<Rightarrow> nat" where
  "closes tr = length (filter (\<lambda>e. e = MqClose) tr)"

text \<open>
  Two relations that describe a run of the command loop. \<open>reaches w w'\<close>: the loop,
  at its head in the world \<open>w\<close>, comes to its head in the world \<open>w'\<close> after it has
  read some verbs and called their handlers, each of which returned 0.
  \<open>loop_ends w commandResult w'\<close>: at its head in \<open>w\<close> the loop ends with
  \<open>commandResult\<close> and leaves \<open>w'\<close>, in one of four ways: no verb can be read,
  with 0; the handler of the verb returns a code that is not 0, with that code; the
  verb is \<^verbatim>\<open>close\<close>, with 0; the verb has no handler and is not \<^verbatim>\<open>close\<close>, with 1
  after a diagnostic.
\<close>

inductive reaches :: "world \<Rightarrow> world \<Rightarrow> bool" where
  reaches_here: "reaches w w"
| reaches_step:
    "extract_string (cin w) = Some (verb, rest) \<Longrightarrow>
     handler_of verb = Some handler \<Longrightarrow>
     handler (w\<lparr>cin := rest, chunk := verb\<rparr>) = Some (Inr (0, w1)) \<Longrightarrow>
     reaches w1 w2 \<Longrightarrow>
     reaches w w2"

definition loop_ends :: "world \<Rightarrow> int \<Rightarrow> world \<Rightarrow> bool" where
  "loop_ends w commandResult w' =
     (case extract_string (cin w) of
        None \<Rightarrow> commandResult = 0 \<and> w' = w
      | Some (verb, rest) \<Rightarrow>
          (case handler_of verb of
             Some handler \<Rightarrow>
               commandResult \<noteq> 0
               \<and> handler (w\<lparr>cin := rest, chunk := verb\<rparr>) = Some (Inr (commandResult, w'))
           | None \<Rightarrow>
               if verb = ''close''
               then commandResult = 0 \<and> w' = w\<lparr>cin := rest, chunk := verb\<rparr>
               else commandResult = 1
                    \<and> w' = cerr_locked (''Unknown command '' @ dquote @ verb @ dquote)
                             (w\<lparr>cin := rest, chunk := verb\<rparr>)))"

lemma obs_append [simp]:
  "mq_sends (xs @ ys) = mq_sends xs @ mq_sends ys"
  "stderr_lines (xs @ ys) = stderr_lines xs @ stderr_lines ys"
  "stdout_writes (xs @ ys) = stdout_writes xs @ stdout_writes ys"
  by (simp_all add: mq_sends_def stderr_lines_def stdout_writes_def)

lemma obs_simps [simp]:
  "mq_sends [] = []" "stderr_lines [] = []" "stdout_writes [] = []"
  "mq_sends (e # tr) = (case e of MqSend p m \<Rightarrow> [(p, m)] | _ \<Rightarrow> []) @ mq_sends tr"
  "stderr_lines (e # tr) = (case e of Stderr s \<Rightarrow> [s] | _ \<Rightarrow> []) @ stderr_lines tr"
  "stdout_writes (e # tr) = (case e of Stdout s \<Rightarrow> [s] | _ \<Rightarrow> []) @ stdout_writes tr"
  by (simp_all add: mq_sends_def stderr_lines_def stdout_writes_def)

section \<open>Malformed \<^verbatim>\<open>send\<close> commands\<close>

text \<open>
  Claim C7 does not hold of the code. \<^verbatim>\<open>sendHandler\<close> calls \<^verbatim>\<open>chunk.resize(size)\<close>
  outside any \<^verbatim>\<open>try\<close>, where \<^verbatim>\<open>doReceive\<close> catches the failure of its own
  \<^verbatim>\<open>resize\<close> and reports it. Below the input is
  \<^verbatim>\<open>send 1 9223372036854775807 x\<close>: the priority and the size are read, the payload
  is shorter than the size, and \<^verbatim>\<open>resize\<close> throws \<^verbatim>\<open>length_error\<close>. The exception
  leaves \<^verbatim>\<open>sendHandler\<close> and \<^verbatim>\<open>serve\<close>: no diagnostic is written, the code 5 of a
  short payload is not returned, and the queue is not closed.
\<close>

theorem send_huge_size_aborts:
  "extract_unsigned '' 1 9223372036854775807 x'' = (Some 1, '' 9223372036854775807 x'')
   \<and> extract_ssize '' 9223372036854775807 x'' = (Some 9223372036854775807, '' x'')
   \<and> sendHandler (world0\<lparr>chunk := ''send'', cin := '' 1 9223372036854775807 x''\<rparr>)
       = Some (Inl LengthError)
   \<and> serve (world0\<lparr>cin := ''send 1 9223372036854775807 x'',
                      mq_getattr_script :=
                        [GetattrOk \<lparr>mq_maxmsg = 10, mq_msgsize = 8, mq_curmsgs = 0\<rparr>],
                      mq_close_script := [CloseOk]\<rparr>)
       = Some (Inl LengthError)"
proof -
  have u: "extract_unsigned '' 1 9223372036854775807 x'' = (Some 1, '' 9223372036854775807 x'')"
    by (simp add: extract_unsigned_def scan_integer_def isspace_def isdigit_def
                  digits_value_def UINT_MAX_def Let_def)
  have z: "extract_ssize '' 9223372036854775807 x'' = (Some 9223372036854775807, '' x'')"
    by (simp add: extract_ssize_def scan_integer_def isspace_def isdigit_def
                  digits_value_def SSIZE_MAX_def Let_def)
  have v: "extract_string ''send 1 9223372036854775807 x''
           = Some (''send'', '' 1 9223372036854775807 x'')"
    by (simp add: extract_string_def isspace_def Let_def)
  have h: "sendHandler (w\<lparr>cin := '' 1 9223372036854775807 x''\<rparr>) = Some (Inl LengthError)"
    if "max_size w = 2 ^ 62" for w
    using that by (simp add: sendHandler_def u z string_resize_def Let_def)
  have a: "sendHandler (world0\<lparr>chunk := ''send'', cin := '' 1 9223372036854775807 x''\<rparr>)
           = Some (Inl LengthError)"
    using h [of "world0\<lparr>chunk := ''send''\<rparr>"] by simp
  have b: "serve (world0\<lparr>cin := ''send 1 9223372036854775807 x'',
                      mq_getattr_script :=
                        [GetattrOk \<lparr>mq_maxmsg = 10, mq_msgsize = 8, mq_curmsgs = 0\<rparr>],
                      mq_close_script := [CloseOk]\<rparr>)
           = Some (Inl LengthError)"
    by (simp add: serve_def Let_def report_attributes_def Shared_def emit_def
                  commandLoop.simps v handler_of_def sendHandler_def u z string_resize_def)
  from u z a b show ?thesis by blast
qed

section \<open>The retry loop of \<^verbatim>\<open>send\<close>\<close>

lemma cerr_locked_trace:
  "trace (cerr_locked line w)
   = trace w @ guarded (consumerThreadExists w) StderrMutex (Stderr (line @ endl))"
  by (simp add: cerr_locked_eq guarded_def)

lemma cout_locked_trace:
  "trace (cout_locked line w)
   = trace w @ guarded (consumerThreadExists w) StdoutMutex (Stdout (line @ endl))"
  by (simp add: cout_locked_eq guarded_def)

lemma locked_fields [simp]:
  "cin (cerr_locked line w) = cin w" "cin (cout_locked line w) = cin w"
  "mq_send_script (cerr_locked line w) = mq_send_script w"
  "mq_send_script (cout_locked line w) = mq_send_script w"
  "consumerThreadExists (cerr_locked line w) = consumerThreadExists w"
  "consumerThreadExists (cout_locked line w) = consumerThreadExists w"
  by (simp_all add: cerr_locked_eq cout_locked_eq)

lemma sendLoop_outcome:
  "case dropWhile transient script of
     [] \<Rightarrow> sendLoop priority sz script w = None
   | SendOk # later \<Rightarrow>
       (\<exists>w'. sendLoop priority sz script w = Some (Inr (0, w'))
          \<and> trace w' = trace w
               @ replicate (Suc (length (takeWhile transient script)))
                   (MqSend priority (take (nat sz) (chunk w)))
               @ guarded (consumerThreadExists w) StdoutMutex (Stdout (''ack '' @ dec_int sz @ endl))
          \<and> cin w' = cin w \<and> mq_send_script w' = later)
   | SendFail error # later \<Rightarrow>
       (\<exists>w' line. sendLoop priority sz script w = Some (Inr (3, w'))
          \<and> error \<noteq> EINTR
          \<and> trace w' = trace w
               @ replicate (Suc (length (takeWhile transient script)))
                   (MqSend priority (take (nat sz) (chunk w)))
               @ guarded (consumerThreadExists w) StderrMutex (Stderr line)
          \<and> cin w' = cin w \<and> mq_send_script w' = later)"
proof (induction script arbitrary: w)
  case Nil
  show ?case by simp
next
  case (Cons answer script)
  show ?case
  proof (cases "transient answer")
    case True
    define w1 where "w1 = (emit (MqSend priority (take (nat sz) (chunk w)))
                             (w\<lparr>mq_send_script := script\<rparr>))\<lparr>errno := EINTR\<rparr>"
    have step: "sendLoop priority sz (answer # script) w = sendLoop priority sz script w1"
      using True by (simp add: transient_def w1_def Let_def)
    have f: "trace w1 = trace w @ [MqSend priority (take (nat sz) (chunk w))]"
      "chunk w1 = chunk w" "cin w1 = cin w" "consumerThreadExists w1 = consumerThreadExists w"
      by (simp_all add: w1_def emit_def)
    have d: "dropWhile transient (answer # script) = dropWhile transient script"
      and t: "length (takeWhile transient (answer # script))
              = Suc (length (takeWhile transient script))"
      using True by simp_all
    show ?thesis
    proof (cases "dropWhile transient script")
      case Nil
      with Cons.IH [of w1] have "sendLoop priority sz script w1 = None" by simp
      then show ?thesis unfolding d step by (simp add: Nil)
    next
      case (Cons a later)
      note dw = Cons
      show ?thesis
      proof (cases a)
        case SendOk
        with Cons.IH [of w1] obtain w' where
          "sendLoop priority sz script w1 = Some (Inr (0, w'))"
          "trace w' = trace w1
               @ replicate (Suc (length (takeWhile transient script)))
                   (MqSend priority (take (nat sz) (chunk w1)))
               @ guarded (consumerThreadExists w1) StdoutMutex
                   (Stdout (''ack '' @ dec_int sz @ endl))"
          "cin w' = cin w1" "mq_send_script w' = later"
          by (auto simp: dw)
        then have "sendLoop priority sz script w1 = Some (Inr (0, w'))
          \<and> trace w' = trace w
               @ replicate (Suc (Suc (length (takeWhile transient script))))
                   (MqSend priority (take (nat sz) (chunk w)))
               @ guarded (consumerThreadExists w) StdoutMutex
                   (Stdout (''ack '' @ dec_int sz @ endl))
          \<and> cin w' = cin w \<and> mq_send_script w' = later"
          by (simp add: f)
        then show ?thesis unfolding d step t by (auto simp: dw SendOk)
      next
        case (SendFail error)
        with Cons.IH [of w1] obtain w' line where
          "sendLoop priority sz script w1 = Some (Inr (3, w'))" "error \<noteq> EINTR"
          "trace w' = trace w1
               @ replicate (Suc (length (takeWhile transient script)))
                   (MqSend priority (take (nat sz) (chunk w1)))
               @ guarded (consumerThreadExists w1) StderrMutex (Stderr line)"
          "cin w' = cin w1" "mq_send_script w' = later"
          by (auto simp: dw)
        then have "sendLoop priority sz script w1 = Some (Inr (3, w')) \<and> error \<noteq> EINTR
          \<and> trace w' = trace w
               @ replicate (Suc (Suc (length (takeWhile transient script))))
                   (MqSend priority (take (nat sz) (chunk w)))
               @ guarded (consumerThreadExists w) StderrMutex (Stderr line)
          \<and> cin w' = cin w \<and> mq_send_script w' = later"
          by (simp add: f)
        then show ?thesis unfolding d step t by (auto simp: dw SendFail)
      qed
    qed
  next
    case False
    show ?thesis
    proof (cases answer)
      case SendOk
      then show ?thesis
        by (simp add: transient_def Let_def cout_locked_trace emit_def)
    next
      case (SendFail error)
      with False have "error \<noteq> EINTR" by (simp add: transient_def)
      with SendFail False show ?thesis
        by (auto simp: Let_def cerr_locked_trace emit_def)
    qed
  qed
qed


lemma sendLoop_exhausted:
  assumes "dropWhile transient script = []"
  shows "sendLoop priority sz script w = None"
  using sendLoop_outcome [where script = script and priority = priority and sz = sz and w = w]
  unfolding assms by simp

lemma sendLoop_ok:
  assumes "dropWhile transient script = SendOk # later"
  shows "\<exists>w'. sendLoop priority sz script w = Some (Inr (0, w'))
          \<and> trace w' = trace w
               @ replicate (Suc (length (takeWhile transient script)))
                   (MqSend priority (take (nat sz) (chunk w)))
               @ guarded (consumerThreadExists w) StdoutMutex (Stdout (''ack '' @ dec_int sz @ endl))
          \<and> cin w' = cin w \<and> mq_send_script w' = later"
  using sendLoop_outcome [where script = script and priority = priority and sz = sz and w = w]
  unfolding assms by simp

lemma sendLoop_fail:
  assumes "dropWhile transient script = SendFail error # later"
  shows "\<exists>w' line. sendLoop priority sz script w = Some (Inr (3, w'))
          \<and> error \<noteq> EINTR
          \<and> trace w' = trace w
               @ replicate (Suc (length (takeWhile transient script)))
                   (MqSend priority (take (nat sz) (chunk w)))
               @ guarded (consumerThreadExists w) StderrMutex (Stderr line)
          \<and> cin w' = cin w \<and> mq_send_script w' = later"
  using sendLoop_outcome [where script = script and priority = priority and sz = sz and w = w]
  unfolding assms by simp

lemma sendHandler_valid:
  assumes "extract_unsigned (cin w) = (Some priority, rest1)"
    and "extract_ssize rest1 = (Some sz, rest2)"
    and "0 \<le> sz"
    and "sz = 0 \<or> (string_resize w (chunk w) (nat sz) = Inr resized
                    \<and> sz \<le> int (length (drop 1 rest2)))"
  shows "\<exists>w1. sendHandler w = sendLoop priority sz (mq_send_script w) w1
              \<and> trace w1 = trace w
              \<and> consumerThreadExists w1 = consumerThreadExists w
              \<and> take (nat sz) (chunk w1) = take (nat sz) (drop 1 rest2)
              \<and> cin w1 = drop (nat sz) (drop 1 rest2)"
proof (cases "sz = 0")
  case True
  with assms(1,2) show ?thesis
    by (auto simp: sendHandler_def intro!: exI [of _ "w\<lparr>cin := drop 1 rest2\<rparr>"])
next
  case False
  with assms(4) have r: "string_resize w (chunk w) (nat sz) = Inr resized"
    and l: "sz \<le> int (length (drop 1 rest2))" by simp_all
  define got where "got = take (nat sz) (drop 1 rest2)"
  from l assms(3) have lt: "int (length got) = sz"
    by (simp add: got_def)
  define w1 where "w1 = w\<lparr>cin := drop (nat sz) (drop 1 rest2),
                           chunk := got @ drop (length got) resized\<rparr>"
  from l assms(3) have mn: "int (min (length rest2 - Suc 0) (nat sz)) = sz"
    by simp
  have "sendHandler w = sendLoop priority sz (mq_send_script w1) w1"
    using assms(1,2,3) False r mn
    by (simp add: sendHandler_def Let_def w1_def got_def)
  moreover have "take (nat sz) (chunk w1) = got"
    using lt by (simp add: w1_def)
  ultimately show ?thesis
    by (auto simp: w1_def got_def intro!: exI [of _ w1])
qed

text \<open>
  Claim C8, as the code has it. Let the command be well formed: the priority and the
  size are read, the size is not negative and the payload is read in full. Then for
  every script of answers of \<^verbatim>\<open>mq_send\<close> the handler calls \<^verbatim>\<open>mq_send\<close> again
  after each transient answer, with the same priority and payload, and writes nothing
  for it. If all answers are transient it has not returned. If the first answer that
  is not transient is a success, it returns 0 and its last events are the write of
  \<^verbatim>\<open>ack <size>\<close>, between the lock and the unlock of the output mutex when a consumer
  thread exists and with no lock otherwise. If that answer is a failure (then not
  \<^verbatim>\<open>EINTR\<close>), it returns 3 after one diagnostic line.
\<close>

theorem sendHandler_retry:
  assumes "extract_unsigned (cin w) = (Some priority, rest1)"
    and "extract_ssize rest1 = (Some sz, rest2)"
    and "0 \<le> sz"
    and "sz = 0 \<or> (string_resize w (chunk w) (nat sz) = Inr resized
                    \<and> sz \<le> int (length (drop 1 rest2)))"
  shows "case dropWhile transient (mq_send_script w) of
           [] \<Rightarrow> sendHandler w = None
         | SendOk # later \<Rightarrow>
             (\<exists>w'. sendHandler w = Some (Inr (0, w'))
                \<and> trace w' = trace w
                     @ replicate (Suc (length (takeWhile transient (mq_send_script w))))
                         (MqSend priority (take (nat sz) (drop 1 rest2)))
                     @ guarded (consumerThreadExists w) StdoutMutex
                         (Stdout (''ack '' @ dec_int sz @ endl)))
         | SendFail error # later \<Rightarrow>
             (\<exists>w' line. sendHandler w = Some (Inr (3, w'))
                \<and> error \<noteq> EINTR
                \<and> trace w' = trace w
                     @ replicate (Suc (length (takeWhile transient (mq_send_script w))))
                         (MqSend priority (take (nat sz) (drop 1 rest2)))
                     @ guarded (consumerThreadExists w) StderrMutex (Stderr line))"
proof -
  from sendHandler_valid [OF assms] obtain w1 where
    h: "sendHandler w = sendLoop priority sz (mq_send_script w) w1"
    and f: "trace w1 = trace w" "consumerThreadExists w1 = consumerThreadExists w"
      "take (nat sz) (chunk w1) = take (nat sz) (drop 1 rest2)"
    by blast
  show ?thesis
  proof (cases "dropWhile transient (mq_send_script w)")
    case Nil
    from sendLoop_exhausted [OF Nil] show ?thesis
      unfolding h Nil by simp
  next
    case (Cons a later)
    show ?thesis
    proof (cases a)
      case SendOk
      from sendLoop_ok [OF Cons [unfolded SendOk], of priority sz w1] show ?thesis
        unfolding h Cons SendOk f by auto
    next
      case (SendFail error)
      from sendLoop_fail [OF Cons [unfolded SendFail], of priority sz w1] show ?thesis
        unfolding h Cons SendFail f by auto
    qed
  qed
qed


lemma obs_replicate [simp]:
  "mq_sends (replicate k (MqSend p m)) = replicate k (p, m)"
  "stdout_writes (replicate k (MqSend p m)) = []"
  "stderr_lines (replicate k (MqSend p m)) = []"
  by (induction k) simp_all

lemma obs_guarded [simp]:
  "mq_sends (guarded held mu (Stdout s)) = []"
  "mq_sends (guarded held mu (Stderr s)) = []"
  "stdout_writes (guarded held mu (Stdout s)) = [s]"
  "stdout_writes (guarded held mu (Stderr s)) = []"
  "stderr_lines (guarded held mu (Stdout s)) = []"
  "stderr_lines (guarded held mu (Stderr s)) = [s]"
  by (simp_all add: guarded_def)

lemma send_examples:
  "extract_unsigned '' 3 5 hello'' = (Some 3, '' 5 hello'')"
  "extract_ssize '' 5 hello'' = (Some 5, '' hello'')"
  "extract_unsigned '' 7 0 receive'' = (Some 7, '' 0 receive'')"
  "extract_ssize '' 0 receive'' = (Some 0, '' receive'')"
  by (simp_all add: extract_unsigned_def extract_ssize_def scan_integer_def isspace_def
                    isdigit_def digits_value_def UINT_MAX_def SSIZE_MAX_def Let_def)

lemma dec_examples:
  "dec_int 5 = ''5''" "dec_int 0 = ''0''"
  by (simp_all add: dec_int_def dec_nat.simps digit_char_def)

theorem sendHandler_retry_witness:
  "\<exists>w'. sendHandler (world0\<lparr>consumerThreadExists := True, cin := '' 3 5 hello'',
                               mq_send_script := [SendFail EINTR, SendOk]\<rparr>)
          = Some (Inr (0, w'))
        \<and> trace w' = [MqSend 3 ''hello'', MqSend 3 ''hello'',
                       MutexLock StdoutMutex, Stdout (''ack 5'' @ endl), MutexUnlock StdoutMutex]"
proof -
  let ?w = "world0\<lparr>consumerThreadExists := True, cin := '' 3 5 hello'',
                    mq_send_script := [SendFail EINTR, SendOk]\<rparr>"
  have 1: "extract_unsigned (cin ?w) = (Some 3, '' 5 hello'')"
    by (simp add: send_examples)
  have 2: "extract_ssize '' 5 hello'' = (Some 5, '' hello'')"
    by (simp add: send_examples)
  have 3: "(0 :: int) \<le> 5" by simp
  have 4: "(5 :: int) = 0 \<or> (string_resize ?w (chunk ?w) (nat 5) = Inr (replicate 5 (CHR 0x00))
                              \<and> 5 \<le> int (length (drop 1 '' hello'')))"
    by (simp add: string_resize_def world0_def)
  have 5: "dropWhile transient (mq_send_script ?w) = [SendOk]"
    "takeWhile transient (mq_send_script ?w) = [SendFail EINTR]"
    by (simp_all add: transient_def)
  from sendHandler_retry [OF 1 2 3 4] show ?thesis
    unfolding 5 by (simp add: guarded_def world0_def dec_examples)
qed

text \<open>
  The claim C8 says that the acknowledgement is written under the output lock. In a
  session without a consumer thread the handler constructs its \<^verbatim>\<open>Lock\<close> with
  \<open>lockOnInit = false\<close>: the run below writes \<^verbatim>\<open>ack 5\<close> and never locks the mutex.
\<close>

theorem send_ack_without_lock:
  "outcome (sendHandler (world0\<lparr>chunk := ''send'', cin := '' 3 5 hello'', mq_send_script := [SendOk]\<rparr>))
   = Some (Inr (0, [MqSend 3 ''hello'', Stdout (''ack 5'' @ endl)]))"
proof -
  let ?w = "world0\<lparr>chunk := ''send'', cin := '' 3 5 hello'', mq_send_script := [SendOk]\<rparr>"
  have r: "string_resize ?w (chunk ?w) (nat 5) = Inr (''send'' @ [CHR 0x00])"
    by (simp add: string_resize_def world0_def)
  show ?thesis
    using r
    by (simp add: sendHandler_def send_examples Let_def outcome_def cout_locked_eq emit_def
                  dec_examples world0_def)
qed

section \<open>A \<^verbatim>\<open>send\<close> of size 0\<close>

text \<open>
  Claim C10. When the size token of a \<^verbatim>\<open>send\<close> command is 0, the handler allocates
  nothing and so ends with no fault; whenever it returns, its code is not 5 and the
  input it leaves is the input after the size token less one character; and when the
  first answer of \<^verbatim>\<open>mq_send\<close> that is not transient is a success, it returns 0, every
  call of \<^verbatim>\<open>mq_send\<close> it made carried the given priority and the empty message, and
  it wrote \<^verbatim>\<open>ack 0\<close>.
\<close>

theorem send_size_zero:
  assumes "extract_unsigned (cin w) = (Some priority, rest1)"
    and "extract_ssize rest1 = (Some 0, rest2)"
  shows "(\<forall>f. sendHandler w \<noteq> Some (Inl f))
       \<and> (\<forall>rc w'. sendHandler w = Some (Inr (rc, w')) \<longrightarrow> rc \<noteq> 5 \<and> cin w' = drop 1 rest2)
       \<and> (\<forall>later. dropWhile transient (mq_send_script w) = SendOk # later \<longrightarrow>
            (\<exists>w'. sendHandler w = Some (Inr (0, w'))
               \<and> cin w' = drop 1 rest2
               \<and> mq_sends (trace w')
                   = mq_sends (trace w)
                       @ replicate (Suc (length (takeWhile transient (mq_send_script w))))
                           (priority, [])
               \<and> stdout_writes (trace w') = stdout_writes (trace w) @ [''ack 0'' @ endl]))"
proof -
  have h: "sendHandler w = sendLoop priority 0 (mq_send_script w) (w\<lparr>cin := drop 1 rest2\<rparr>)"
    using assms by (simp add: sendHandler_def)
  let ?w1 = "w\<lparr>cin := drop 1 rest2\<rparr>"
  have cases3: "sendHandler w = None
     \<or> (\<exists>w'. sendHandler w = Some (Inr (0, w')) \<and> cin w' = drop 1 rest2)
     \<or> (\<exists>w'. sendHandler w = Some (Inr (3, w')) \<and> cin w' = drop 1 rest2)"
  proof (cases "dropWhile transient (mq_send_script w)")
    case Nil
    from sendLoop_exhausted [OF Nil] show ?thesis unfolding h by simp
  next
    case (Cons a later)
    show ?thesis
    proof (cases a)
      case SendOk
      from sendLoop_ok [OF Cons [unfolded SendOk], of priority 0 ?w1] show ?thesis
        unfolding h by auto
    next
      case (SendFail error)
      from sendLoop_fail [OF Cons [unfolded SendFail], of priority 0 ?w1] show ?thesis
        unfolding h by auto
    qed
  qed
  have a: "\<forall>f. sendHandler w \<noteq> Some (Inl f)"
    using cases3 by auto
  have b: "\<forall>rc w'. sendHandler w = Some (Inr (rc, w')) \<longrightarrow> rc \<noteq> 5 \<and> cin w' = drop 1 rest2"
    using cases3 by auto
  have c: "\<forall>later. dropWhile transient (mq_send_script w) = SendOk # later \<longrightarrow>
            (\<exists>w'. sendHandler w = Some (Inr (0, w'))
               \<and> cin w' = drop 1 rest2
               \<and> mq_sends (trace w')
                   = mq_sends (trace w)
                       @ replicate (Suc (length (takeWhile transient (mq_send_script w))))
                           (priority, [])
               \<and> stdout_writes (trace w') = stdout_writes (trace w) @ [''ack 0'' @ endl])"
  proof (intro allI impI)
    fix later
    assume d: "dropWhile transient (mq_send_script w) = SendOk # later"
    from sendLoop_ok [OF d, of priority 0 ?w1] obtain w' where
      "sendLoop priority 0 (mq_send_script w) ?w1 = Some (Inr (0, w'))"
      "trace w' = trace ?w1
               @ replicate (Suc (length (takeWhile transient (mq_send_script w))))
                   (MqSend priority (take (nat 0) (chunk ?w1)))
               @ guarded (consumerThreadExists ?w1) StdoutMutex (Stdout (''ack '' @ dec_int 0 @ endl))"
      "cin w' = cin ?w1"
      by blast
    then show "\<exists>w'. sendHandler w = Some (Inr (0, w'))
               \<and> cin w' = drop 1 rest2
               \<and> mq_sends (trace w')
                   = mq_sends (trace w)
                       @ replicate (Suc (length (takeWhile transient (mq_send_script w))))
                           (priority, [])
               \<and> stdout_writes (trace w') = stdout_writes (trace w) @ [''ack 0'' @ endl]"
      unfolding h by (simp add: dec_examples del: replicate_Suc)
  qed
  from a b c show ?thesis by blast
qed

theorem send_size_zero_witness:
  "\<exists>w'. sendHandler (world0\<lparr>chunk := ''send'', cin := '' 7 0 receive'',
                               mq_send_script := [SendOk]\<rparr>) = Some (Inr (0, w'))
        \<and> cin w' = ''receive''
        \<and> mq_sends (trace w') = [(7, [])]
        \<and> stdout_writes (trace w') = [''ack 0'' @ endl]"
proof -
  let ?w = "world0\<lparr>chunk := ''send'', cin := '' 7 0 receive'', mq_send_script := [SendOk]\<rparr>"
  have 1: "extract_unsigned (cin ?w) = (Some 7, '' 0 receive'')"
    by (simp add: send_examples)
  have 2: "extract_ssize '' 0 receive'' = (Some 0, '' receive'')"
    by (simp add: send_examples)
  have 3: "dropWhile transient (mq_send_script ?w) = SendOk # []"
    "takeWhile transient (mq_send_script ?w) = []"
    by (simp_all add: transient_def)
  from send_size_zero [OF 1 2] 3 show ?thesis
    by (simp add: world0_def)
qed

section \<open>The attribute handlers\<close>





section \<open>The order of events in the \<^verbatim>\<open>close\<close> handler\<close>

text \<open>
  Claim C6, as the code has it. The handler returns the return code of \<^verbatim>\<open>mq_close\<close>,
  which is 0 exactly on success, and leaves \<open>stopped\<close> true. Its events are, in this
  order: the lock of the flag's mutex when a consumer thread exists; the store of
  \<open>true\<close> to \<open>stopped\<close>; the call of \<^verbatim>\<open>mq_close\<close>; when that failed, one diagnostic
  line; when a consumer thread exists, \<^verbatim>\<open>pthread_kill\<close> and the unlock of the flag's
  mutex. So the flag is set before the queue is closed, and a failure of the close
  does not prevent the signal.
\<close>

theorem closeHandler_sequence:
  assumes "mq_close_script w = answer # script"
  shows "\<exists>w'. closeHandler w = Some (Inr (mq_close_rc answer, w'))
           \<and> stopped w'
           \<and> trace w' = trace w
                @ (if consumerThreadExists w then [MutexLock StoppedMutex] else [])
                @ [StoreStopped True, MqClose]
                @ (case answer of
                     CloseOk \<Rightarrow> []
                   | CloseFail error \<Rightarrow>
                       guarded (consumerThreadExists w) StderrMutex
                         (Stderr (''Unable to close the message queue: ''
                                    @ strerror w error @ endl)))
                @ (if consumerThreadExists w then [PthreadKill, MutexUnlock StoppedMutex] else [])
           \<and> (mq_close_rc answer = 0) = (answer = CloseOk)"
proof (cases answer)
  case CloseOk
  with assms show ?thesis
    by (simp add: closeHandler_def Lock_def Lock_destroy_def acquire_def release_def
                  emit_def Let_def mq_close_rc_def)
next
  case (CloseFail error)
  with assms show ?thesis
    by (simp add: closeHandler_def Lock_def Lock_destroy_def acquire_def release_def
                  emit_def Let_def mq_close_rc_def cerr_locked_eq guarded_def)
qed

theorem closeHandler_sequence_witness:
  "\<exists>w'. closeHandler (world0\<lparr>consumerThreadExists := True, mq_close_script := [CloseFail EBADF]\<rparr>)
          = Some (Inr (- 1, w'))
        \<and> stopped w'
        \<and> trace w' = [MutexLock StoppedMutex, StoreStopped True, MqClose,
                       MutexLock StderrMutex,
                       Stderr (''Unable to close the message queue: errno 9'' @ endl),
                       MutexUnlock StderrMutex, PthreadKill, MutexUnlock StoppedMutex]"
proof -
  let ?w = "world0\<lparr>consumerThreadExists := True, mq_close_script := [CloseFail EBADF]\<rparr>"
  have 1: "mq_close_script ?w = CloseFail EBADF # []" by simp
  have 2: "dec_int EBADF = ''9''"
    by (simp add: EBADF_def dec_int_def dec_nat.simps digit_char_def)
  from closeHandler_sequence [OF 1] show ?thesis
    by (simp add: guarded_def mq_close_rc_def 2)
qed

text \<open>
  The claim C6 says that the flag is set under its lock. In a session without a
  consumer thread the handler never locks the mutex.
\<close>

theorem close_without_lock:
  "outcome (closeHandler (world0\<lparr>mq_close_script := [CloseOk]\<rparr>))
   = Some (Inr (0, [StoreStopped True, MqClose]))"
  by (simp add: closeHandler_def Lock_def Lock_destroy_def acquire_def release_def
                emit_def Let_def mq_close_rc_def outcome_def)

section \<open>The width of the prefix and the region that is written\<close>

lemma digits10_values: "digits10 32 = 9" "digits10 63 = 18"
  by (simp_all add: digits10_def compute_floorlog)

lemma numbersMaxSize_eq: "numbersMaxSize = 30"
  by (simp add: numbersMaxSize_def digits10_values)

lemma floorlog_less_10: "0 < n \<Longrightarrow> n < 10 \<Longrightarrow> floorlog 10 n = 1"
  by (subst compute_floorlog) (simp add: floorlog_eq_zero_iff)

lemma floorlog_div_10: "10 \<le> n \<Longrightarrow> floorlog 10 n = Suc (floorlog 10 (n div 10))"
  by (subst compute_floorlog) simp

lemma length_dec_nat: "length (dec_nat n) = (if n = 0 then 1 else floorlog 10 n)"
proof (induction n rule: dec_nat.induct)
  case (1 n)
  show ?case
  proof (cases "n < 10")
    case True
    then show ?thesis by (simp add: dec_nat.simps [of n] floorlog_less_10)
  next
    case False
    then have "n div 10 \<noteq> 0" by simp
    with False "1.IH" show ?thesis
      by (simp add: dec_nat.simps [of n] floorlog_div_10)
  qed
qed

subsection \<open>Rounding to \<^verbatim>\<open>double\<close>\<close>

lemma round_to_even_le: "m \<le> of_int j \<Longrightarrow> round_to_even m \<le> j"
proof -
  assume a: "m \<le> of_int j"
  then have f: "\<lfloor>m\<rfloor> \<le> j" by (simp add: floor_le_iff)
  show ?thesis
  proof (cases "\<lfloor>m\<rfloor> = j")
    case True
    then have "of_int j \<le> m" by (metis of_int_floor_le)
    with a have "m = of_int j" by simp
    then show ?thesis by (simp add: round_to_even_def)
  next
    case False
    with f have "\<lfloor>m\<rfloor> + 1 \<le> j" by simp
    then show ?thesis by (simp add: round_to_even_def)
  qed
qed

lemma round_to_even_ge: "of_int j \<le> m \<Longrightarrow> j \<le> round_to_even m"
proof -
  assume "of_int j \<le> m"
  then have "j \<le> \<lfloor>m\<rfloor>" by (simp add: le_floor_iff)
  then show ?thesis by (simp add: round_to_even_def)
qed

lemma round_to_even_of_int [simp]: "round_to_even (of_int i) = i"
  by (simp add: round_to_even_def)

lemma ulp_pos: "0 < ulp x"
  by (simp add: ulp_def)

lemma ulp_grid:
  assumes "0 < y" and "y < 2 ^ n"
  shows "\<exists>k::nat. 2 powr (real n - 53) = 2 ^ k * ulp y"
proof -
  have "log 2 y < real n"
    using assms by (simp add: log_less_iff powr_realpow)
  then have "\<lfloor>log 2 y\<rfloor> < int n" by (simp add: floor_less_iff)
  then have e: "\<lfloor>log 2 y\<rfloor> \<le> int n - 1" by simp
  define k where "k = nat (int n - 1 - \<lfloor>log 2 y\<rfloor>)"
  have k: "real k = real n - 1 - of_int \<lfloor>log 2 y\<rfloor>"
    using e by (simp add: k_def)
  have "2 ^ k * ulp y = 2 powr (real k) * 2 powr (of_int \<lfloor>log 2 y\<rfloor> - 52)"
    using assms(1) by (simp add: ulp_def powr_realpow)
  also have "\<dots> = 2 powr (real k + (of_int \<lfloor>log 2 y\<rfloor> - 52))"
    by (simp add: powr_add)
  also have "\<dots> = 2 powr (real n - 53)"
    by (simp add: k)
  finally show ?thesis by metis
qed

lemma to_double_le:
  assumes "0 < y" and "y < 2 ^ n" and "y \<le> of_int j * 2 powr (real n - 53)"
  shows "to_double y \<le> of_int j * 2 powr (real n - 53)"
proof -
  from ulp_grid [OF assms(1,2)] obtain k :: nat where
    k: "2 powr (real n - 53) = 2 ^ k * ulp y" by blast
  have "y / ulp y \<le> of_int (j * 2 ^ k)"
    using assms(3) ulp_pos [of y] by (simp add: k field_simps)
  then have "round_to_even (y / ulp y) \<le> j * 2 ^ k"
    by (rule round_to_even_le)
  then have "of_int (round_to_even (y / ulp y)) \<le> (of_int (j * 2 ^ k) :: real)"
    by (simp only: of_int_le_iff)
  then have "of_int (round_to_even (y / ulp y)) * ulp y \<le> of_int (j * 2 ^ k) * ulp y"
    using ulp_pos [of y] by (simp only: mult_le_cancel_right_pos)
  with assms(1) show ?thesis by (simp add: to_double_def k mult_ac)
qed

lemma to_double_ge:
  assumes "0 < y" and "y < 2 ^ n" and "of_int j * 2 powr (real n - 53) \<le> y"
  shows "of_int j * 2 powr (real n - 53) \<le> to_double y"
proof -
  from ulp_grid [OF assms(1,2)] obtain k :: nat where
    k: "2 powr (real n - 53) = 2 ^ k * ulp y" by blast
  have "of_int (j * 2 ^ k) \<le> y / ulp y"
    using assms(3) ulp_pos [of y] by (simp add: k field_simps)
  then have "j * 2 ^ k \<le> round_to_even (y / ulp y)"
    by (rule round_to_even_ge)
  then have "(of_int (j * 2 ^ k) :: real) \<le> of_int (round_to_even (y / ulp y))"
    by (simp only: of_int_le_iff)
  then have "of_int (j * 2 ^ k) * ulp y \<le> of_int (round_to_even (y / ulp y)) * ulp y"
    using ulp_pos [of y] by (simp only: mult_le_cancel_right_pos)
  with assms(1) show ?thesis by (simp add: to_double_def k mult_ac)
qed

lemma step49: "2 powr (real 4 - 53) = 1 / 2 ^ 49"
  by (simp add: powr_neg_numeral)

lemma to_double_nat:
  assumes "n < 2 ^ 53"
  shows "to_double (real n) = real n"
proof (cases "n = 0")
  case True
  then show ?thesis by (simp add: to_double_def)
next
  case False
  then have p: "0 < real n" by simp
  have b: "real n < 2 ^ 53" using assms by (metis of_nat_less_iff of_nat_numeral of_nat_power)
  have "to_double (real n) \<le> of_int (int n) * 2 powr (real 53 - 53)"
    by (rule to_double_le [OF p b]) simp
  moreover have "of_int (int n) * 2 powr (real 53 - 53) \<le> to_double (real n)"
    by (rule to_double_ge [OF p b]) simp
  ultimately show ?thesis by simp
qed

lemma ln10_le_3: "ln (10 :: real) \<le> 3"
proof -
  have "(1 + 3 / real 6) ^ 6 \<le> exp (3 :: real)"
    by (rule exp_ge_one_plus_x_over_n_power_n) simp_all
  then have "(10 :: real) \<le> exp 3" by (simp add: power_divide)
  then have "ln (10 :: real) \<le> ln (exp 3)" by (subst ln_le_cancel_iff) simp_all
  then show ?thesis by simp
qed

lemma log10_gap:
  assumes "0 < n" and "n < 10 ^ d" and "d \<le> 14"
  shows "log 10 (real n) \<le> real d - 1 / 2 ^ 49"
proof -
  define t :: real where "t = 1 / 10 ^ d"
  have t0: "0 < t" by (simp add: t_def)
  have "(10 :: real) ^ d \<ge> 10 ^ 0" by (intro power_increasing) simp_all
  have d0: "0 < d" using assms(1,2) by (cases d) simp_all
  then have "(10 :: real) ^ 1 \<le> 10 ^ d" by (intro power_increasing) simp_all
  then have t1: "t \<le> 1 / 10" by (simp add: t_def field_simps)
  have "(10 :: real) ^ d \<le> 10 ^ 14" using assms(3) by (intro power_increasing) simp_all
  then have t14: "1 / 10 ^ 14 \<le> t" by (simp add: t_def field_simps)
  have "n \<le> 10 ^ d - 1" using assms(2) by simp
  then have "real n \<le> real (10 ^ d - 1)" by (simp only: of_nat_le_iff)
  also have "real (10 ^ d - 1) = 10 ^ d - 1" by (simp add: of_nat_diff)
  also have "\<dots> = 10 ^ d * (1 - t)" by (simp add: t_def field_simps)
  finally have le: "real n \<le> 10 ^ d * (1 - t)" .
  have "log 10 (real n) \<le> log 10 (10 ^ d * (1 - t))"
    using assms(1) le by (simp add: log_le_cancel_iff)
  also have "\<dots> = real d + log 10 (1 - t)"
    using t1 by (simp add: log_mult log_nat_power)
  also have "log 10 (1 - t) = ln (1 - t) / ln 10" by (simp add: log_def)
  also have "ln (1 - t) / ln 10 \<le> (- t) / ln 10"
  proof (rule divide_right_mono)
    show "ln (1 - t) \<le> - t"
      using ln_one_minus_pos_upper_bound [of t] t0 t1 by simp
    show "0 \<le> ln (10 :: real)" by simp
  qed
  also have "(- t) / ln 10 \<le> - (t / 3)"
  proof -
    have "t / 3 \<le> t / ln 10"
      using ln10_le_3 t0 by (intro divide_left_mono) simp_all
    then show ?thesis by simp
  qed
  also have "- (t / 3) \<le> - (1 / 2 ^ 49)"
    using t14 by simp
  finally show ?thesis by simp
qed

lemma to_double_between:
  assumes "0 \<le> y" and "y < 16"
    and "real_of_int a \<le> y" and "y \<le> real_of_int b - 1 / 2 ^ 49" and "0 \<le> a"
  shows "real_of_int a \<le> to_double y \<and> to_double y \<le> real_of_int b - 1 / 2 ^ 49"
proof (cases "y = 0")
  case True
  with assms show ?thesis by (simp add: to_double_def)
next
  case False
  with assms(1) have p: "0 < y" by simp
  have b: "y < 2 ^ 4" using assms(2) by simp
  have ga: "real_of_int (a * 2 ^ 49) * 2 powr (real 4 - 53) = real_of_int a"
    unfolding step49 by simp
  have gb: "real_of_int (b * 2 ^ 49 - 1) * 2 powr (real 4 - 53) = real_of_int b - 1 / 2 ^ 49"
    unfolding step49 by (simp add: field_simps)
  have "real_of_int (a * 2 ^ 49) * 2 powr (real 4 - 53) \<le> to_double y"
    by (rule to_double_ge [OF p b]) (use assms(3) in \<open>simp only: ga\<close>)
  moreover have "to_double y \<le> real_of_int (b * 2 ^ 49 - 1) * 2 powr (real 4 - 53)"
    by (rule to_double_le [OF p b]) (use assms(4) in \<open>simp only: gb\<close>)
  ultimately show ?thesis by (simp only: ga gb)
qed

lemma sizeBase10_digits:
  assumes "n < 10 ^ 14"
  shows "sizeBase10 (to_double (real n)) = (if n = 0 then 1 else int (floorlog 10 n))"
proof (cases "n = 0")
  case True
  then show ?thesis by (simp add: to_double_def sizeBase10_def)
next
  case False
  then have n0: "0 < n" by simp
  have "n < 2 ^ 53" using assms by simp
  then have exact: "to_double (real n) = real n" by (rule to_double_nat)
  define d where "d = floorlog 10 n"
  have bounds: "10 ^ (d - 1) \<le> n" "n < 10 ^ d"
    using floorlog_bounds [of n 10] n0 by (simp_all add: d_def)
  have d14: "d \<le> 14" using assms by (simp add: d_def floorlog_le_iff)
  have d1: "1 \<le> d" using n0 bounds(2) by (cases d) simp_all
  define y where "y = log 10 (real n)"
  have "real (10 ^ (d - 1)) \<le> real n" using bounds(1) by (simp only: of_nat_le_iff)
  then have "(10 :: real) ^ (d - 1) \<le> real n" by simp
  then have "log 10 ((10 :: real) ^ (d - 1)) \<le> log 10 (real n)"
    using n0 by (subst log_le_cancel_iff) simp_all
  moreover have "log 10 ((10 :: real) ^ (d - 1)) = real (d - 1)"
    by (simp add: log_nat_power)
  ultimately have lo: "real_of_int (int d - 1) \<le> y"
    using d1 by (simp add: y_def of_nat_diff)
  have hi: "y \<le> real_of_int (int d) - 1 / 2 ^ 49"
    using log10_gap [OF n0 bounds(2) d14] by (simp add: y_def)
  have y0: "0 \<le> y" using lo d1 by simp
  have y16: "y < 16" using hi d14 by simp
  define r where "r = to_double y"
  from to_double_between [OF y0 y16 lo hi] d1
  have r: "real_of_int (int d - 1) \<le> r" "r \<le> real_of_int (int d) - 1 / 2 ^ 49"
    by (simp_all add: r_def)
  have z0: "0 \<le> 1 + r" using r(1) d1 by simp
  have z16: "1 + r < 16" using r(2) d14 by simp
  have zlo: "real_of_int (int d) \<le> 1 + r" using r(1) by simp
  have zhi: "1 + r \<le> real_of_int (int d + 1) - 1 / 2 ^ 49" using r(2) by simp
  from to_double_between [OF z0 z16 zlo zhi]
  have "real_of_int (int d) \<le> to_double (1 + r)"
    "to_double (1 + r) \<le> real_of_int (int d + 1) - 1 / 2 ^ 49"
    by simp_all
  then have "real_of_int (int d) \<le> to_double (1 + r)" "to_double (1 + r) < real_of_int (int d) + 1"
    by simp_all
  then have "\<lfloor>to_double (1 + r)\<rfloor> = int d"
    by (simp add: floor_unique)
  with False n0 show ?thesis
    by (simp add: sizeBase10_def exact log10_def r_def y_def d_def)
qed

lemma sizeBase10_int:
  assumes "0 \<le> m" and "m < 10 ^ 14"
  shows "sizeBase10 (to_double (real_of_int m))
         = (if m = 0 then 1 else int (floorlog 10 (nat m)))"
proof -
  have "nat m < 10 ^ 14" using assms by simp
  from sizeBase10_digits [OF this] assms(1) show ?thesis by simp
qed

text \<open>
  From fifteen digits on the sum can round up to the next integer: for the number
  999999999999999 of fifteen digits \<open>sizeBase10\<close> is 16.
\<close>

lemma ln10_ge_2: "2 \<le> ln (10 :: real)"
proof -
  have "exp (2 :: real) = exp 1 * exp 1" by (simp flip: exp_add)
  also have "\<dots> \<le> 3 * 3" by (intro mult_mono exp_le) simp_all
  finally have "exp (2 :: real) \<le> 10" by simp
  then have "ln (exp (2 :: real)) \<le> ln 10" by (subst ln_le_cancel_iff) simp_all
  then show ?thesis by simp
qed

lemma round_to_even_up:
  assumes "real_of_int j - 1 / 2 < m" and "m \<le> real_of_int j"
  shows "round_to_even m = j"
proof (cases "m = real_of_int j")
  case True
  then show ?thesis by simp
next
  case False
  with assms have "real_of_int (j - 1) \<le> m" "m < real_of_int (j - 1) + 1" by simp_all
  then have f: "\<lfloor>m\<rfloor> = j - 1" by (simp add: floor_unique)
  with assms(1) show ?thesis by (simp add: round_to_even_def)
qed

lemma sizeBase10_rounds_up: "sizeBase10 (to_double (real 999999999999999)) = 16"
proof -
  define t :: real where "t = 1 / 10 ^ 15"
  define y :: real where "y = log 10 (real 999999999999999)"
  have exact: "to_double (real 999999999999999) = real 999999999999999"
    by (rule to_double_nat) simp
  define p :: real where "p = 10 ^ 15"
  have p0: "0 < p" and t1: "0 < 1 - t" by (simp_all add: p_def t_def)
  have "real 999999999999999 = p * (1 - t)" by (simp add: p_def t_def)
  then have "y = log 10 (p * (1 - t))" by (simp only: y_def)
  also have "\<dots> = log 10 p + log 10 (1 - t)"
    using p0 t1 by (simp add: log_mult)
  also have "log 10 p = real 15 * log 10 10"
    unfolding p_def by (rule log_nat_power) simp
  finally have ysum0: "y = 15 + ln (1 - t) / ln 10" by (simp add: log_def)
  define q where "q = ln (1 - t) / ln 10"
  have ysum: "y = 15 + q" by (simp only: ysum0 q_def)
  have up: "ln (1 - t) \<le> - t"
    by (rule ln_one_minus_pos_upper_bound) (simp_all add: t_def)
  have down: "- t - 2 * t\<^sup>2 \<le> ln (1 - t)"
    by (rule ln_one_minus_pos_lower_bound) (simp_all add: t_def)
  have l0: "0 < ln (10 :: real)" by simp
  have "q \<le> (- t) / ln 10"
    unfolding q_def using up l0 by (intro divide_right_mono) simp_all
  also have "\<dots> < 0" using l0 by (simp add: t_def)
  finally have neg: "q < 0" .
  have "(t + 2 * t\<^sup>2) / ln 10 \<le> (t + 2 * t\<^sup>2) / 2"
    using ln10_ge_2 by (intro divide_left_mono) (simp_all add: t_def)
  also have "\<dots> < 1 / 2 ^ 50" by (simp add: t_def power2_eq_square)
  finally have small: "(t + 2 * t\<^sup>2) / ln 10 < 1 / 2 ^ 50" .
  have "- ((t + 2 * t\<^sup>2) / ln 10) = (- t - 2 * t\<^sup>2) / ln 10"
    by (simp add: field_simps)
  also have "\<dots> \<le> q"
    unfolding q_def using down l0 by (intro divide_right_mono) simp_all
  finally have "- ((t + 2 * t\<^sup>2) / ln 10) \<le> q" .
  moreover have "- (1 / 2 ^ 50) < - ((t + 2 * t\<^sup>2) / ln 10)"
    using small by (simp only: neg_less_iff_less)
  ultimately have big: "- (1 / 2 ^ 50) < q"
    by (rule less_le_trans [rotated])
  have ylo: "15 - 1 / 2 ^ 50 < y" and yhi: "y < 15"
    using big neg by (simp_all add: ysum)
  have "8 \<le> y" using ylo by simp
  then have e1: "3 \<le> log 2 y" by (simp add: le_log_iff)
  have e2: "log 2 y < 4" using yhi \<open>8 \<le> y\<close> by (simp add: log_less_iff)
  have "\<lfloor>log 2 \<bar>y\<bar>\<rfloor> = 3" using e1 e2 \<open>8 \<le> y\<close> by (simp add: floor_unique)
  then have u: "ulp y = 1 / 2 ^ 49" by (simp add: ulp_def powr_neg_numeral)
  have "round_to_even (y / ulp y) = 15 * 2 ^ 49"
  proof (rule round_to_even_up)
    show "real_of_int (15 * 2 ^ 49) - 1 / 2 < y / ulp y"
      using ylo by (simp add: u field_simps)
    show "y / ulp y \<le> real_of_int (15 * 2 ^ 49)"
      using yhi by (simp add: u field_simps)
  qed
  then have r: "to_double y = 15"
    using \<open>8 \<le> y\<close> by (simp add: to_double_def u)
  have "to_double (real 16) = real 16" by (rule to_double_nat) simp
  then have s: "to_double 16 = 16" by simp
  have x: "to_double 999999999999999 = 999999999999999" using exact by simp
  have y': "log 10 999999999999999 = y" by (simp add: y_def)
  have "sizeBase10 (to_double (real 999999999999999))
        = \<lfloor>to_double (1 + to_double y)\<rfloor>"
    by (simp add: sizeBase10_def x log10_def y')
  then show ?thesis by (simp add: r s)
qed

subsection \<open>The prefix\<close>

lemma numbersExpectedSize_alt:
  assumes "0 \<le> msgSize" and "msgSize < 10 ^ 14"
  shows "numbersExpectedSize priority msgSize
         = (if unat priority = 0 then 1 else int (floorlog 10 (unat priority))) + 1
           + (if msgSize = 0 then 1 else int (floorlog 10 (nat msgSize))) + 1"
proof -
  have "unat priority < 2 ^ 32" using unsigned_less [of priority] by simp
  then have "unat priority < 10 ^ 14" by simp
  from sizeBase10_digits [OF this] sizeBase10_int [OF assms] show ?thesis
    by (simp only: numbersExpectedSize_def)
qed

lemma numbersExpectedSize_eq:
  "0 \<le> msgSize \<Longrightarrow> msgSize < 10 ^ 14 \<Longrightarrow>
   numbersExpectedSize priority msgSize
   = int (length (format_numbers priority msgSize)) + 1"
  by (simp add: numbersExpectedSize_alt format_numbers_def dec_int_def length_dec_nat)

lemma floorlog_unsigned: "floorlog 10 (unat (priority :: 32 word)) \<le> 10"
proof -
  have "unat priority < 2 ^ 32" using unsigned_less [of priority] by simp
  then have "unat priority < 10 ^ 10" by simp
  then show ?thesis by (simp add: floorlog_le_iff)
qed

lemma numbersExpectedSize_bound:
  assumes "0 \<le> msgSize" and "msgSize < 10 ^ 14"
  shows "numbersExpectedSize priority msgSize \<le> numbersMaxSize"
proof -
  have p10: "floorlog 10 (unat priority) \<le> 10"
    by (rule floorlog_unsigned)
  have "nat msgSize < 10 ^ 14" using assms by simp
  then have "floorlog 10 (nat msgSize) \<le> 14"
    by (simp add: floorlog_le_iff)
  with p10 show ?thesis
    by (simp add: numbersExpectedSize_alt [OF assms] numbersMaxSize_eq)
qed

lemma printMessage_region:
  assumes nm: "numbersMaxSize = int (length P) + int (length Q)"
    and lq: "length Q = Suc (length (format_numbers priority (int (length payload))))"
    and small: "int (length payload) < 10 ^ 14"
  shows "printMessage priority (int (length payload)) (P @ Q @ payload @ s # S) w
         = (case Lock StdoutMutex (consumerThreadExists w)
                  (cerr_debug (''measured numbersSize='' @ dec_int (int (length Q)))
                     (cerr_debug (''calculated numbersExpectedSize='' @ dec_int (int (length Q))) w)) of
              (stdoutLock, w3) \<Rightarrow>
                writeLoop
                  (format_numbers priority (int (length payload)) @ '' '' @ payload @ endl)
                  0 (write_script w) stdoutLock
                  (w3\<lparr>chunk := P @ format_numbers priority (int (length payload)) @ '' ''
                                  @ payload @ endl @ S\<rparr>))"
proof -
  define F where "F = format_numbers priority (int (length payload))"
  have E: "numbersExpectedSize priority (int (length payload)) = int (length Q)"
    using small by (simp add: numbersExpectedSize_eq lq)
  have lq': "length Q = Suc (length F)" using lq by (simp add: F_def)
  have le: "length endl = 1" by (simp add: endl_def)
  have nn: "nat (int a + int b + int c) = a + b + c" "nat (int a + int b) = a + b"
    for a b c :: nat
    by linarith+
  have s1: "store (P @ Q @ payload @ s # S) (numbersMaxSize + int (length payload)) endl
            = Inr (P @ Q @ payload @ endl @ S)"
    by (simp add: store_def nm le nn)
  have s2: "snprintf (P @ Q @ payload @ endl @ S) (numbersMaxSize - int (length Q))
              (int (length (P @ Q @ payload @ endl @ S)) - (numbersMaxSize - int (length Q))) F
            = Inr (P @ F @ [CHR 0x00] @ payload @ endl @ S)"
    by (simp add: snprintf_def store_def nm lq' le nn)
  have s3: "store (P @ F @ [CHR 0x00] @ payload @ endl @ S)
              (numbersMaxSize - int (length Q) + (int (length F) + 1) - 1) '' ''
            = Inr (P @ F @ '' '' @ payload @ endl @ S)"
    by (simp add: store_def nm lq' le nn)
  have b: "\<not> numbersMaxSize - int (length Q) + (int (length F) + 1 + int (length payload) + 1)
           > int (length (P @ F @ '' '' @ payload @ endl @ S))"
    by (simp add: nm lq' le)
  have out: "take (nat (int (length F) + 1 + int (length payload) + 1))
               (drop (nat (numbersMaxSize - int (length Q))) (P @ F @ '' '' @ payload @ endl @ S))
             = F @ '' '' @ payload @ endl"
  proof -
    have k: "nat (int (length F) + 1 + int (length payload) + 1)
             = length F + (1 + (length payload + 1))"
      by linarith
    have d: "nat (numbersMaxSize - int (length Q)) = length P"
      by (simp add: nm)
    show ?thesis unfolding k d by (simp add: le)
  qed
  have n: "int (length F) + 1 = int (length Q)" using lq' by simp
  show ?thesis
    unfolding printMessage_def Let_def E F_def [symmetric] s1 sum.case s2 s3 out
    using b n
    by (simp add: cerr_debug_eq Lock_def acquire_def emit_def)
qed


lemma string_resize_length: "string_resize w s n = Inr buffer \<Longrightarrow> length buffer = n"
  by (auto simp: string_resize_def split: if_splits)

lemma cerr_debug_rec:
  "cerr_debug line w
   = w\<lparr>trace := trace w @ debug_events (debug w) (consumerThreadExists w) line\<rparr>"
  by (simp add: cerr_debug_eq debug_events_def guarded_def)

lemma debug_events_obs [simp]:
  "stdout_writes (debug_events dbg held line) = []"
  "mq_sends (debug_events dbg held line) = []"
  "debug_events False held line = []"
  by (simp_all add: debug_events_def)

lemma Lock_rec:
  "Lock m c v = (\<lparr>mutex_of = m, holding = c\<rparr>,
                 v\<lparr>trace := trace v @ (if c then [MutexLock m] else [])\<rparr>)"
  by (simp add: Lock_def acquire_def emit_def)

lemma doReceive_message:
  assumes m0: "0 \<le> msgsize w" and m1: "msgsize w \<le> int SSIZE_MAX"
    and alloc: "string_resize w (chunk w) (nat ((numbersMaxSize + msgsize w + 1) mod 2 ^ 64))
                = Inr buffer"
    and script: "mq_receive_script w = ReceiveOk priority payload # script"
    and len: "int (length payload) \<le> msgsize w"
    and width: "int (length payload) < 10 ^ 14"
  shows "\<exists>w3 evs.
           doReceive w
           = writeLoop (format_numbers priority (int (length payload)) @ '' '' @ payload @ endl)
               0 (write_script w) \<lparr>mutex_of = StdoutMutex, holding = consumerThreadExists w\<rparr> w3
           \<and> trace w3 = trace w @ evs
           \<and> stdout_writes evs = []
           \<and> (\<not> debug w \<longrightarrow>
                evs = MqReceive (nat (msgsize w))
                        # (if consumerThreadExists w then [MutexLock StdoutMutex] else []))
           \<and> consumerThreadExists w3 = consumerThreadExists w
           \<and> strerror w3 = strerror w
           \<and> mq_receive_script w3 = script
           \<and> cin w3 = cin w"
proof -
  define F where "F = format_numbers priority (int (length payload))"
  define n where "n = nat (numbersMaxSize + msgsize w + 1)"
  have nmod: "nat ((numbersMaxSize + msgsize w + 1) mod 2 ^ 64) = n"
    using m0 m1 by (simp add: n_def numbersMaxSize_eq SSIZE_MAX_def)
  have lb: "length buffer = n"
    using alloc unfolding nmod by (rule string_resize_length)
  have n31: "int n = 31 + msgsize w"
    using m0 by (simp add: n_def numbersMaxSize_eq)
  have mbs: "nat ((int (length buffer) - numbersMaxSize - 1) mod 2 ^ 64) = nat (msgsize w)"
    using m0 m1 by (simp add: lb n31 numbersMaxSize_eq SSIZE_MAX_def)
  have E: "int (length F) + 1 \<le> 30"
    using numbersExpectedSize_bound [of "int (length payload)" priority] width
    by (simp add: numbersExpectedSize_eq F_def numbersMaxSize_eq)
  define k where "k = 29 - length F"
  define P where "P = take k (take 30 buffer)"
  define Q where "Q = drop k (take 30 buffer)"
  have l30: "length (take 30 buffer) = 30"
    using lb n31 m0 by simp
  have pq: "take 30 buffer = P @ Q"
    unfolding P_def Q_def by (rule append_take_drop_id [symmetric])
  have lP: "length P = k"
    using l30 E by (simp add: P_def k_def)
  have lQ: "length Q = Suc (length F)"
    using l30 E by (simp add: Q_def k_def)
  have "drop (30 + length payload) buffer \<noteq> []"
    using lb n31 len by simp
  then obtain s S where tail: "drop (30 + length payload) buffer = s # S"
    by (cases "drop (30 + length payload) buffer") auto
  have st: "store buffer numbersMaxSize payload = Inr (P @ Q @ payload @ s # S)"
    using lb n31 len by (simp add: store_def numbersMaxSize_eq pq [symmetric] tail)
  have nm: "numbersMaxSize = int (length P) + int (length Q)"
    using E by (simp add: numbersMaxSize_eq lP lQ k_def)
  have rcv: "mq_receive (nat (msgsize w)) (ReceiveOk priority payload) = ReceiveOk priority payload"
    using len by (simp add: mq_receive_def)
  have ne: "buffer \<noteq> []" "\<not> int (length buffer) < numbersMaxSize"
    using lb n31 m0 by (auto simp: numbersMaxSize_eq)
  define wC where "wC =
      cerr_debug (''received a priority '' @ dec_nat (unat priority)
                           @ '' message of size '' @ dec_int (int (length payload)))
               ((emit (MqReceive (nat (msgsize w)))
                  ((cerr_debug
                      (''About to receive with buffer.size()='' @ dec_nat (length buffer)
                         @ '' numbersMaxSize='' @ dec_int numbersMaxSize
                         @ '' msgBufferSize='' @ dec_nat (nat (msgsize w))
                         @ '' shared.msgsize='' @ dec_int (msgsize w))
                      (w\<lparr>chunk := buffer\<rparr>))\<lparr>mq_receive_script := script\<rparr>))
                \<lparr>chunk := P @ Q @ payload @ s # S\<rparr>)"
  have d: "doReceive w
           = printMessage priority (int (length payload)) (P @ Q @ payload @ s # S) wC"
    unfolding doReceive_def alloc sum.case Let_def mbs wC_def
    using ne script by (simp add: cerr_debug_eq rcv st)
  define wD where "wD =
      cerr_debug (''measured numbersSize='' @ dec_int (int (length Q)))
        (cerr_debug (''calculated numbersExpectedSize='' @ dec_int (int (length Q))) wC)"
  define w3 where "w3 =
      (wD\<lparr>trace := trace wD @ (if consumerThreadExists w then [MutexLock StdoutMutex] else [])\<rparr>)
        \<lparr>chunk := P @ F @ '' '' @ payload @ endl @ S\<rparr>"
  have fC: "consumerThreadExists wC = consumerThreadExists w" "write_script wC = write_script w"
    "debug wC = debug w"
    by (simp_all add: wC_def cerr_debug_rec emit_def)
  have p: "printMessage priority (int (length payload)) (P @ Q @ payload @ s # S) wC
           = writeLoop (F @ '' '' @ payload @ endl) 0 (write_script w)
               \<lparr>mutex_of = StdoutMutex, holding = consumerThreadExists w\<rparr> w3"
    unfolding printMessage_region [OF nm lQ [unfolded F_def] width] F_def [symmetric]
              wD_def [symmetric] fC Lock_rec prod.case w3_def
    by simp
  define evs where "evs =
      debug_events (debug w) (consumerThreadExists w)
        (''About to receive with buffer.size()='' @ dec_nat (length buffer)
           @ '' numbersMaxSize='' @ dec_int numbersMaxSize
           @ '' msgBufferSize='' @ dec_nat (nat (msgsize w))
           @ '' shared.msgsize='' @ dec_int (msgsize w))
      @ [MqReceive (nat (msgsize w))]
      @ debug_events (debug w) (consumerThreadExists w)
          (''received a priority '' @ dec_nat (unat priority)
             @ '' message of size '' @ dec_int (int (length payload)))
      @ debug_events (debug w) (consumerThreadExists w)
          (''calculated numbersExpectedSize='' @ dec_int (int (length Q)))
      @ debug_events (debug w) (consumerThreadExists w)
          (''measured numbersSize='' @ dec_int (int (length Q)))
      @ (if consumerThreadExists w then [MutexLock StdoutMutex] else [])"
  have t: "trace w3 = trace w @ evs"
    by (simp add: w3_def wD_def wC_def cerr_debug_rec emit_def evs_def)
  have o: "stdout_writes evs = []"
    by (simp add: evs_def)
  have nd: "\<not> debug w \<longrightarrow>
              evs = MqReceive (nat (msgsize w))
                      # (if consumerThreadExists w then [MutexLock StdoutMutex] else [])"
    by (simp add: evs_def)
  have f3: "consumerThreadExists w3 = consumerThreadExists w" "strerror w3 = strerror w"
    "mq_receive_script w3 = script" "cin w3 = cin w"
    by (simp_all add: w3_def wD_def wC_def cerr_debug_rec emit_def)
  from d p have "doReceive w
           = writeLoop (format_numbers priority (int (length payload)) @ '' '' @ payload @ endl)
               0 (write_script w) \<lparr>mutex_of = StdoutMutex, holding = consumerThreadExists w\<rparr> w3"
    by (simp add: F_def)
  with t o nd f3 show ?thesis
    by (intro exI [of _ w3] exI [of _ evs]) simp
qed



lemma receive_examples:
  "format_numbers 2 5 = ''2 5''"
  "format_numbers 4294967295 5 = ''4294967295 5''"
  by (simp_all add: format_numbers_def dec_int_def dec_nat.simps digit_char_def)



lemma small_resize:
  "string_resize (world0\<lparr>chunk := ''receive'', msgsize := 8, mq_receive_script := rs,
                          write_script := ws\<rparr>) ''receive''
     (nat ((numbersMaxSize + 8 + 1) mod 2 ^ 64))
   = Inr (take 39 ''receive'' @ replicate (39 - length ''receive'') (CHR 0x00))"
  by (simp add: string_resize_def numbersMaxSize_eq)

text \<open>
  Claim C3 does not hold of the code: every round of the loop calls
  \<^verbatim>\<open>write(stdoutFd, outputBegin, outputSize)\<close>, from the beginning of the region.
  Below, the queue delivers the message \<^verbatim>\<open>hello\<close> with the priority 2, the first
  \<^verbatim>\<open>write\<close> accepts 3 bytes and the second 7. The engine returns 0 and standard
  output holds \<^verbatim>\<open>2 52 5 hel\<close>, not \<^verbatim>\<open>2 5 hello\<close> and a newline.
\<close>

theorem partial_write_repeats_prefix:
  "outcome (doReceive (world0\<lparr>chunk := ''receive'', msgsize := 8,
                              mq_receive_script := [ReceiveOk 2 ''hello''],
                              write_script := [WriteOk 3, WriteOk 7]\<rparr>))
   = Some (Inr (0, [MqReceive 8, Stdout ''2 5'', Stdout ''2 5 hel'']))"
proof -
  let ?w = "world0\<lparr>chunk := ''receive'', msgsize := 8,
                    mq_receive_script := [ReceiveOk 2 ''hello''],
                    write_script := [WriteOk 3, WriteOk 7]\<rparr>"
  have 1: "0 \<le> msgsize ?w" by simp
  have 2: "msgsize ?w \<le> int SSIZE_MAX" by (simp add: SSIZE_MAX_def)
  have 3: "string_resize ?w (chunk ?w) (nat ((numbersMaxSize + msgsize ?w + 1) mod 2 ^ 64))
           = Inr (take 39 ''receive'' @ replicate (39 - length ''receive'') (CHR 0x00))"
    using small_resize by simp
  have 4: "mq_receive_script ?w = ReceiveOk 2 ''hello'' # []" by simp
  have 5: "int (length ''hello'') \<le> msgsize ?w" by simp
  have 6: "int (length ''hello'') < 10 ^ 14" by simp
  from doReceive_message [OF 1 2 3 4 5 6] obtain w3 evs where
    d: "doReceive ?w
        = writeLoop (format_numbers 2 (int (length ''hello'')) @ '' '' @ ''hello'' @ endl)
            0 (write_script ?w) \<lparr>mutex_of = StdoutMutex, holding = consumerThreadExists ?w\<rparr> w3"
    and t: "trace w3 = trace ?w @ evs"
    and e: "\<not> debug ?w \<longrightarrow>
              evs = MqReceive (nat (msgsize ?w))
                      # (if consumerThreadExists ?w then [MutexLock StdoutMutex] else [])"
    by blast
  from e have e': "evs = [MqReceive 8]" by simp
  show ?thesis
    unfolding d
    by (simp add: receive_examples endl_def Let_def outcome_def Lock_destroy_def emit_def t e')
qed


section \<open>The retries of the \<^verbatim>\<open>receive\<close> handler\<close>

lemma receiveHandler_unchanged:
  assumes "\<forall>w1. doReceive w \<noteq> Some (Inr (FAIL_INTERRUPTED_OR_CLOSED, w1))"
  shows "receiveHandler w = doReceive w"
proof (cases "doReceive w")
  case None
  then show ?thesis by (simp add: receiveHandler.simps [of w])
next
  case (Some r)
  show ?thesis
  proof (cases r)
    case (Inl f)
    with Some show ?thesis by (simp add: receiveHandler.simps [of w])
  next
    case (Inr p)
    obtain rc w1 where "p = (rc, w1)" by (cases p)
    with Some Inr assms show ?thesis
      by (auto simp: receiveHandler.simps [of w])
  qed
qed

lemma receiveHandler_again:
  assumes "doReceive w = Some (Inr (FAIL_INTERRUPTED_OR_CLOSED, w1))"
  shows "receiveHandler w = receiveHandler w1"
  using assms by (simp add: receiveHandler.simps [of w])

text \<open>
  Claim C1 does not hold of the code. The engine returns
  \<open>FAIL_INTERRUPTED_OR_CLOSED\<close> for \<^verbatim>\<open>EBADF\<close> as for \<^verbatim>\<open>EINTR\<close>, and the handler,
  whose comment takes that code to mean an interruption by a signal, calls the engine
  again. Below the first dequeue fails with \<^verbatim>\<open>EBADF\<close>; the handler calls
  \<^verbatim>\<open>mq_receive\<close> a second time and prints the message it then gets, where the claim
  has the failure returned with no retry.
\<close>

theorem receive_retries_after_EBADF:
  "outcome (receiveHandler (world0\<lparr>chunk := ''receive'', msgsize := 8,
                                    mq_receive_script := [ReceiveFail EBADF, ReceiveOk 2 ''hello''],
                                    write_script := [WriteOk 10]\<rparr>))
   = Some (Inr (0, [MqReceive 8, MqReceive 8, Stdout (''2 5 hello'' @ endl)]))"
proof -
  let ?w = "world0\<lparr>chunk := ''receive'', msgsize := 8,
                    mq_receive_script := [ReceiveFail EBADF, ReceiveOk 2 ''hello''],
                    write_script := [WriteOk 10]\<rparr>"
  let ?buffer = "take 39 ''receive'' @ replicate (39 - length ''receive'') (CHR 0x00)"
  let ?w1 = "(emit (MqReceive 8)
               (?w\<lparr>chunk := ?buffer, mq_receive_script := [ReceiveOk 2 ''hello'']\<rparr>))
             \<lparr>errno := EBADF\<rparr>"
  have r: "string_resize ?w (chunk ?w) (nat ((numbersMaxSize + msgsize ?w + 1) mod 2 ^ 64))
           = Inr ?buffer"
    using small_resize by simp
  have d1: "doReceive ?w = Some (Inr (FAIL_INTERRUPTED_OR_CLOSED, ?w1))"
    unfolding doReceive_def r sum.case Let_def
    by (simp add: cerr_debug_rec emit_def mq_receive_def numbersMaxSize_eq)
  have h1: "receiveHandler ?w = receiveHandler ?w1"
    using d1 by (rule receiveHandler_again)
  have 1: "0 \<le> msgsize ?w1" by (simp add: emit_def)
  have 2: "msgsize ?w1 \<le> int SSIZE_MAX" by (simp add: SSIZE_MAX_def emit_def)
  have 3: "string_resize ?w1 (chunk ?w1) (nat ((numbersMaxSize + msgsize ?w1 + 1) mod 2 ^ 64))
           = Inr ?buffer"
    by (simp add: string_resize_def numbersMaxSize_eq emit_def)
  have 4: "mq_receive_script ?w1 = ReceiveOk 2 ''hello'' # []" by (simp add: emit_def)
  have 5: "int (length ''hello'') \<le> msgsize ?w1" by (simp add: emit_def)
  have 6: "int (length ''hello'') < 10 ^ 14" by simp
  from doReceive_message [OF 1 2 3 4 5 6] obtain w3 evs where
    d: "doReceive ?w1
        = writeLoop (format_numbers 2 (int (length ''hello'')) @ '' '' @ ''hello'' @ endl)
            0 (write_script ?w1) \<lparr>mutex_of = StdoutMutex, holding = consumerThreadExists ?w1\<rparr> w3"
    and t: "trace w3 = trace ?w1 @ evs"
    and e: "\<not> debug ?w1 \<longrightarrow>
              evs = MqReceive (nat (msgsize ?w1))
                      # (if consumerThreadExists ?w1 then [MutexLock StdoutMutex] else [])"
    by blast
  from e have e': "evs = [MqReceive 8]" by (simp add: emit_def)
  have d2: "doReceive ?w1
            = Some (Inr (0, Lock_destroy \<lparr>mutex_of = StdoutMutex, holding = False\<rparr>
                              (emit (Stdout (''2 5 hello'' @ endl)) (w3\<lparr>write_script := []\<rparr>))))"
    unfolding d
    by (simp add: receive_examples endl_def Let_def emit_def)
  then have "\<forall>w2. doReceive ?w1 \<noteq> Some (Inr (FAIL_INTERRUPTED_OR_CLOSED, w2))"
    by (simp add: FAIL_INTERRUPTED_OR_CLOSED_def)
  from receiveHandler_unchanged [OF this] have h2: "receiveHandler ?w1 = doReceive ?w1" .
  show ?thesis
    unfolding h1 h2 d2
    by (simp add: outcome_def Lock_destroy_def emit_def t e' endl_def)
qed

text \<open>
  When every dequeue fails with \<^verbatim>\<open>EBADF\<close>, as on a queue that was opened for writing
  only, the handler has not returned after any number of answers, and it writes
  nothing.
\<close>

lemma receiveHandler_EBADF_forever:
  assumes "mq_receive_script w = replicate n (ReceiveFail EBADF)"
    and "msgsize w = 8" and "39 \<le> max_size w" and "39 \<le> memory w"
  shows "receiveHandler w = None"
  using assms
proof (induction n arbitrary: w)
  case 0
  then have "doReceive w = None"
    by (simp add: doReceive_def string_resize_def numbersMaxSize_eq Let_def cerr_debug_rec)
  then show ?case by (simp add: receiveHandler.simps [of w])
next
  case (Suc n)
  define buffer where
    "buffer = take 39 (chunk w) @ replicate (39 - length (chunk w)) (CHR 0x00)"
  have r: "string_resize w (chunk w) (nat ((numbersMaxSize + msgsize w + 1) mod 2 ^ 64))
           = Inr buffer"
    using Suc.prems by (simp add: string_resize_def numbersMaxSize_eq buffer_def)
  have lb: "length buffer = 39" by (simp add: buffer_def)
  then have ne: "buffer \<noteq> []" by auto
  define w1 where
    "w1 = (emit (MqReceive 8)
             ((cerr_debug
                 (''About to receive with buffer.size()='' @ dec_nat (length buffer)
                    @ '' numbersMaxSize='' @ dec_int numbersMaxSize
                    @ '' msgBufferSize='' @ dec_nat 8
                    @ '' shared.msgsize='' @ dec_int (msgsize w))
                 (w\<lparr>chunk := buffer\<rparr>))
              \<lparr>mq_receive_script := replicate n (ReceiveFail EBADF)\<rparr>))\<lparr>errno := EBADF\<rparr>"
  have d: "doReceive w = Some (Inr (FAIL_INTERRUPTED_OR_CLOSED, w1))"
    unfolding doReceive_def r sum.case Let_def
    using Suc.prems(1) ne
    by (simp add: lb numbersMaxSize_eq cerr_debug_rec emit_def mq_receive_def w1_def)
  have "receiveHandler w1 = None"
    using Suc.prems by (intro Suc.IH) (simp_all add: w1_def cerr_debug_rec emit_def)
  with receiveHandler_again [OF d] show ?case by simp
qed

section \<open>The session: one close after the loop\<close>

lemma closes_simps [simp]:
  "closes [] = 0"
  "closes (xs @ ys) = closes xs + closes ys"
  "closes (e # xs) = (if e = MqClose then 1 else 0) + closes xs"
  by (simp_all add: closes_def)

lemma closes_guarded [simp]:
  "closes (guarded held m (Stdout s)) = 0"
  "closes (guarded held m (Stderr s)) = 0"
  "closes (debug_events dbg held line) = 0"
  by (simp_all add: guarded_def debug_events_def)

lemma closes_locked [simp]:
  "closes (trace (cerr_locked line w)) = closes (trace w)"
  "closes (trace (cout_locked line w)) = closes (trace w)"
  "closes (trace (cerr_debug line w)) = closes (trace w)"
  by (simp_all add: cerr_locked_trace cout_locked_trace cerr_debug_rec)

lemma sendLoop_closes:
  "sendLoop priority sz script w = Some (Inr (rc, w')) \<Longrightarrow> closes (trace w') = closes (trace w)"
proof (induction script arbitrary: w)
  case Nil
  then show ?case by simp
next
  case (Cons answer script)
  show ?case
  proof (cases answer)
    case SendOk
    with Cons.prems show ?thesis by (auto simp: Let_def emit_def)
  next
    case (SendFail error)
    show ?thesis
    proof (cases "error = EINTR")
      case True
      with SendFail Cons.prems
      have "sendLoop priority sz script
              ((emit (MqSend priority (take (nat sz) (chunk w)))
                  (w\<lparr>mq_send_script := script\<rparr>))\<lparr>errno := error\<rparr>) = Some (Inr (rc, w'))"
        by (simp add: Let_def)
      from Cons.IH [OF this] show ?thesis by (simp add: emit_def)
    next
      case False
      with SendFail Cons.prems show ?thesis by (auto simp: Let_def emit_def)
    qed
  qed
qed

lemma sendHandler_closes:
  assumes "sendHandler w = Some (Inr (rc, w'))"
  shows "closes (trace w') = closes (trace w)"
proof (cases "extract_unsigned (cin w)")
  case (Pair p rest1)
  note eu = Pair
  show ?thesis
  proof (cases p)
    case None
    with Pair assms show ?thesis by (auto simp: sendHandler_def)
  next
    case (Some priority)
    show ?thesis
    proof (cases "extract_ssize rest1")
      case (Pair q rest2)
      show ?thesis
      proof (cases q)
        case None
        with eu Some Pair assms show ?thesis
          by (auto simp: sendHandler_def)
      next
        case sz: (Some sz)
        from eu Some Pair sz assms show ?thesis
          by (auto simp: sendHandler_def Let_def
                   split: if_splits sum.splits dest!: sendLoop_closes)
      qed
    qed
  qed
qed

lemma writeLoop_closes:
  "writeLoop output written script l w = Some (Inr (rc, w')) \<Longrightarrow>
   closes (trace w') = closes (trace w)"
proof (induction script arbitrary: written w)
  case Nil
  then show ?case
    by (auto simp: Lock_destroy_def release_def emit_def split: if_splits)
next
  case (Cons answer script)
  show ?case
  proof (cases "written = int (length output)")
    case True
    with Cons.prems show ?thesis
      by (auto simp: Lock_destroy_def release_def emit_def split: if_splits)
  next
    case False
    show ?thesis
    proof (cases answer)
      case (WriteOk n)
      with False Cons.prems
      have "writeLoop output (written + int (min n (length output))) script l
              (emit (Stdout (take (min n (length output)) output)) (w\<lparr>write_script := script\<rparr>))
            = Some (Inr (rc, w'))"
        by (simp add: Let_def)
      from Cons.IH [OF this] show ?thesis by (simp add: emit_def)
    next
      case (WriteFail error)
      show ?thesis
      proof (cases "error = EINTR")
        case True
        with WriteFail False Cons.prems
        have "writeLoop output written script l (w\<lparr>write_script := script, errno := error\<rparr>)
              = Some (Inr (rc, w'))"
          by (simp add: Let_def)
        from Cons.IH [OF this] show ?thesis by simp
      next
        case ne: False
        with WriteFail False Cons.prems show ?thesis
          by (auto simp: Let_def Lock_destroy_def release_def emit_def cerr_locked_eq
                   split: if_splits prod.splits)
      qed
    qed
  qed
qed

lemma printMessage_closes:
  assumes "printMessage priority msgSize buffer w = Some (Inr (rc, w'))"
  shows "closes (trace w') = closes (trace w)"
  using assms
  by (auto simp: printMessage_def Let_def Lock_rec
           split: sum.splits if_splits prod.splits dest!: writeLoop_closes)

lemma doReceive_closes:
  assumes "doReceive w = Some (Inr (rc, w'))"
  shows "closes (trace w') = closes (trace w)"
  using assms
  by (auto simp: doReceive_def Let_def cerr_debug_rec emit_def
           split: sum.splits fault.splits if_splits list.splits receive_outcome.splits
           dest!: printMessage_closes)

lemma receiveHandler_closes:
  "receiveHandler w = Some (Inr (rc, w')) \<Longrightarrow> closes (trace w') = closes (trace w)"
proof (induction w rule: receiveHandler.induct)
  case (1 w)
  show ?case
  proof (cases "\<exists>w1. doReceive w = Some (Inr (FAIL_INTERRUPTED_OR_CLOSED, w1))")
    case True
    then obtain w1 where d: "doReceive w = Some (Inr (FAIL_INTERRUPTED_OR_CLOSED, w1))" by blast
    with "1.prems" have "receiveHandler w1 = Some (Inr (rc, w'))"
      by (simp add: receiveHandler.simps [of w])
    from "1.IH" [OF d refl refl _ this] have "closes (trace w') = closes (trace w1)" by simp
    with doReceive_closes [OF d] show ?thesis by simp
  next
    case False
    then have "receiveHandler w = doReceive w"
      by (intro receiveHandler_unchanged) simp
    with "1.prems" doReceive_closes show ?thesis by simp
  qed
qed

lemma handler_closes:
  assumes "handler_of verb = Some handler" and "handler w = Some (Inr (rc, w'))"
  shows "closes (trace w') = closes (trace w)"
proof -
  consider "handler = sendHandler" | "handler = receiveHandler" | "handler = consumeHandler"
    | "handler = countHandler" | "handler = msgsizeHandler" | "handler = maxmsgHandler"
    using assms(1) by (auto simp: handler_of_def split: if_splits)
  then show ?thesis
  proof cases
    case 1
    with assms(2) show ?thesis by (simp add: sendHandler_closes)
  next
    case 2
    with assms(2) show ?thesis by (simp add: receiveHandler_closes)
  next
    case 3
    with assms(2) show ?thesis
      by (auto simp: consumeHandler_def Let_def emit_def split: list.splits if_splits)
  next
    case 4
    with assms(2) show ?thesis
      by (auto simp: countHandler_def Let_def emit_def
               split: list.splits getattr_outcome.splits)
  next
    case 5
    with assms(2) show ?thesis
      by (auto simp: msgsizeHandler_def Let_def emit_def
               split: list.splits getattr_outcome.splits)
  next
    case 6
    with assms(2) show ?thesis
      by (auto simp: maxmsgHandler_def Let_def emit_def
               split: list.splits getattr_outcome.splits)
  qed
qed


lemma commandLoop_run:
  "commandLoop w = Some (Inr (rc, w')) \<Longrightarrow> \<exists>w1. reaches w w1 \<and> loop_ends w1 rc w'"
proof (induction w rule: commandLoop.induct)
  case (1 w)
  show ?case
  proof (cases "extract_string (cin w)")
    case None
    with "1.prems" have "loop_ends w rc w'"
      by (simp add: commandLoop.simps [of w] loop_ends_def)
    then show ?thesis by (blast intro: reaches_here)
  next
    case (Some p)
    obtain verb rest where p: "p = (verb, rest)" by (cases p)
    note es = Some [unfolded p]
    show ?thesis
    proof (cases "handler_of verb")
      case None
      with es "1.prems" have "loop_ends w rc w'"
        by (auto simp: commandLoop.simps [of w] loop_ends_def split: if_splits)
      then show ?thesis by (blast intro: reaches_here)
    next
      case h: (Some handler)
      show ?thesis
      proof (cases "\<exists>w2. handler (w\<lparr>cin := rest, chunk := verb\<rparr>) = Some (Inr (0, w2))")
        case True
        then obtain w2 where r: "handler (w\<lparr>cin := rest, chunk := verb\<rparr>) = Some (Inr (0, w2))"
          by blast
        with es h "1.prems" have "commandLoop w2 = Some (Inr (rc, w'))"
          by (simp add: commandLoop.simps [of w])
        from "1.IH" [OF Some p [symmetric] h r refl refl _ this]
        obtain w1 where "reaches w2 w1" "loop_ends w1 rc w'" by auto
        with es h r show ?thesis by (blast intro: reaches_step)
      next
        case False
        with es h "1.prems" have "loop_ends w rc w'"
          by (auto simp: commandLoop.simps [of w] loop_ends_def
                   split: option.splits sum.splits if_splits)
        then show ?thesis by (blast intro: reaches_here)
      qed
    qed
  qed
qed

lemma reaches_closes: "reaches w w1 \<Longrightarrow> closes (trace w1) = closes (trace w)"
proof (induction rule: reaches.induct)
  case (reaches_here w)
  show ?case by simp
next
  case (reaches_step w verb rest handler w1 w2)
  from handler_closes [OF reaches_step.hyps(2,3)] reaches_step.IH show ?case by simp
qed

lemma loop_ends_closes:
  assumes "loop_ends w rc w'"
  shows "closes (trace w') = closes (trace w)"
proof (cases "extract_string (cin w)")
  case None
  with assms show ?thesis by (simp add: loop_ends_def)
next
  case (Some p)
  obtain verb rest where p: "p = (verb, rest)" by (cases p)
  show ?thesis
  proof (cases "handler_of verb")
    case None
    with Some p assms show ?thesis
      by (auto simp: loop_ends_def split: if_splits)
  next
    case h: (Some handler)
    with Some p assms
    have "handler (w\<lparr>cin := rest, chunk := verb\<rparr>) = Some (Inr (rc, w'))"
      by (simp add: loop_ends_def)
    from handler_closes [OF h this] show ?thesis by simp
  qed
qed

lemma closeHandler_returns:
  assumes "mq_close_script w = answer # script"
  shows "\<exists>w'. closeHandler w = Some (Inr (mq_close_rc answer, w'))
              \<and> closes (trace w') = closes (trace w) + 1"
  using assms
  by (cases answer)
     (simp_all add: closeHandler_def Lock_rec Lock_destroy_def release_def emit_def Let_def
                    cerr_locked_eq)

lemma report_attributes_closes:
  "report_attributes attributes w = Inr w' \<Longrightarrow> closes (trace w') = closes (trace w)"
  by (auto simp: report_attributes_def emit_def split: if_splits sum.splits)

text \<open>
  Claim C4, as the code has it. Let the session be established (the first attribute
  query succeeds and the report of the attributes raises no fault), let the command
  loop end with \<open>commandResult\<close>, and let \<^verbatim>\<open>mq_close\<close> answer. Then the loop ended
  in one of the four ways above after handlers that all returned 0; \<^verbatim>\<open>mq_close\<close> was
  not called during the loop; the close handler runs and returns the return code of
  \<^verbatim>\<open>mq_close\<close>; \<^verbatim>\<open>serve\<close> returns \<open>commandResult\<close> if that is not 0 and the
  result of the close handler otherwise; and \<^verbatim>\<open>mq_close\<close> was called exactly once in
  the whole session. \<open>commandResult\<close> is the result of the handler that ended the
  loop, 1 after an unknown verb, and 0 otherwise.
\<close>

theorem serve_closes_once:
  assumes "mq_getattr_script w = GetattrOk attributes # script"
    and "report_attributes attributes (emit MqGetattr (w\<lparr>mq_getattr_script := script\<rparr>)) = Inr w0"
    and "commandLoop (Shared attributes w0) = Some (Inr (commandResult, w2))"
    and "mq_close_script w2 = answer # later"
  shows "\<exists>w1 w3 w'.
           reaches (Shared attributes w0) w1 \<and> loop_ends w1 commandResult w2
         \<and> closes (trace w2) = closes (trace w)
         \<and> closeHandler w2 = Some (Inr (mq_close_rc answer, w3))
         \<and> serve w = Some (Inr (if commandResult \<noteq> 0 then commandResult
                                 else mq_close_rc answer, w'))
         \<and> closes (trace w') = closes (trace w) + 1"
proof -
  from commandLoop_run [OF assms(3)] obtain w1 where
    r: "reaches (Shared attributes w0) w1" and e: "loop_ends w1 commandResult w2"
    by blast
  have c0: "closes (trace (Shared attributes w0)) = closes (trace w)"
    using report_attributes_closes [OF assms(2)] by (simp add: Shared_def emit_def)
  have c2: "closes (trace w2) = closes (trace w)"
    using reaches_closes [OF r] loop_ends_closes [OF e] c0 by simp
  from closeHandler_returns [OF assms(4)] obtain w3 where
    ch: "closeHandler w2 = Some (Inr (mq_close_rc answer, w3))"
    and c3: "closes (trace w3) = closes (trace w2) + 1"
    by blast
  define w' where "w' = (if consumerThreadExists w3 then emit PthreadJoin w3 else w3)"
  have s: "serve w = Some (Inr (if commandResult \<noteq> 0 then commandResult
                                 else mq_close_rc answer, w'))"
    using assms(1,2,3) ch by (simp add: serve_def Let_def w'_def)
  have c': "closes (trace w') = closes (trace w) + 1"
    using c3 c2 by (simp add: w'_def emit_def)
  from r e c2 ch s c' show ?thesis by blast
qed


lemma verbs:
  "extract_string ''bogus'' = Some (''bogus'', [])"
  "extract_string ''consume consume'' = Some (''consume'', '' consume'')"
  "extract_string '' consume'' = Some (''consume'', [])"
  "extract_string ''count close count'' = Some (''count'', '' close count'')"
  "extract_string '' close count'' = Some (''close'', '' count'')"
  "extract_string [] = None"
  by (simp_all add: extract_string_def isspace_def Let_def)

lemma handlers:
  "handler_of ''bogus'' = None"
  "handler_of ''close'' = None"
  "handler_of ''consume'' = Some consumeHandler"
  "handler_of ''count'' = Some countHandler"
  by (simp_all add: handler_of_def)

theorem serve_closes_once_witness:
  "\<exists>w'. serve (world0\<lparr>cin := ''count close count'',
                        mq_getattr_script :=
                          [GetattrOk \<lparr>mq_maxmsg = 10, mq_msgsize = 8, mq_curmsgs = 0\<rparr>,
                           GetattrOk \<lparr>mq_maxmsg = 10, mq_msgsize = 8, mq_curmsgs = 0\<rparr>],
                        mq_close_script := [CloseFail EBADF]\<rparr>)
          = Some (Inr (- 1, w'))
        \<and> closes (trace w') = 1"
proof -
  let ?a = "\<lparr>mq_maxmsg = 10, mq_msgsize = 8, mq_curmsgs = 0\<rparr>"
  let ?w = "world0\<lparr>cin := ''count close count'',
                    mq_getattr_script := [GetattrOk ?a, GetattrOk ?a],
                    mq_close_script := [CloseFail EBADF]\<rparr>"
  let ?start = "emit MqGetattr (?w\<lparr>mq_getattr_script := [GetattrOk ?a]\<rparr>)"
  have 1: "mq_getattr_script ?w = GetattrOk ?a # [GetattrOk ?a]" by simp
  have 2: "report_attributes ?a ?start = Inr ?start"
    by (simp add: report_attributes_def emit_def)
  have "\<exists>w2. commandLoop (Shared ?a ?start) = Some (Inr (0, w2))
             \<and> mq_close_script w2 = CloseFail EBADF # []"
    by (simp add: commandLoop.simps Shared_def emit_def verbs handlers countHandler_def
                  Let_def cout_locked_eq)
  then obtain w2 where 3: "commandLoop (Shared ?a ?start) = Some (Inr (0, w2))"
    and 4: "mq_close_script w2 = CloseFail EBADF # []"
    by blast
  from serve_closes_once [OF 1 2 3 4] show ?thesis
    by (auto simp: mq_close_rc_def)
qed

text \<open>
  The claim C4 gives the exit code as the first result of a handler that is not 0
  and otherwise the result of the close handler. Below the only verb is unknown: no
  handler is called, the close handler returns 0, and \<^verbatim>\<open>serve\<close> returns 1.
\<close>

theorem unknown_verb_exit_code:
  "outcome (serve (world0\<lparr>cin := ''bogus'',
                          mq_getattr_script := [GetattrOk \<lparr>mq_maxmsg = 10, mq_msgsize = 8, mq_curmsgs = 0\<rparr>],
                          mq_close_script := [CloseOk]\<rparr>))
   = Some (Inr (1, [MqGetattr,
                    Stderr (''Unknown command '' @ dquote @ ''bogus'' @ dquote @ endl),
                    StoreStopped True, MqClose]))
   \<and> mq_close_rc CloseOk = 0"
  by (simp add: serve_def Let_def report_attributes_def Shared_def emit_def outcome_def
                commandLoop.simps verbs handlers cerr_locked_eq closeHandler_def Lock_rec
                Lock_destroy_def release_def mq_close_rc_def)

section \<open>A second \<^verbatim>\<open>consume\<close>\<close>

text \<open>
  Claim C5 does not hold of the code. \<^verbatim>\<open>Shared\<close> has one thread handle and one flag,
  and \<^verbatim>\<open>serve\<close> promises to join the consumer thread before it returns; but
  \<^verbatim>\<open>consumeHandler\<close> never reads the flag. Below the input is \<^verbatim>\<open>consume consume\<close> and
  both calls of \<^verbatim>\<open>pthread_create\<close> succeed. The signal action is installed twice and
  two threads are created; the second handle overwrites the first, so
  \<^verbatim>\<open>pthread_kill\<close> and \<^verbatim>\<open>pthread_join\<close> are called once, for the second thread, and
  the first thread is neither woken nor joined.
\<close>

theorem second_consume_creates_second_thread:
  "outcome (serve (world0\<lparr>cin := ''consume consume'',
                          mq_getattr_script := [GetattrOk \<lparr>mq_maxmsg = 10, mq_msgsize = 8, mq_curmsgs = 0\<rparr>],
                          pthread_create_script := [CreateOk, CreateOk],
                          mq_close_script := [CloseOk]\<rparr>))
   = Some (Inr (0, [MqGetattr, Sigaction, PthreadCreate 0, Sigaction, PthreadCreate 0,
                    MutexLock StoppedMutex, StoreStopped True, MqClose, PthreadKill,
                    MutexUnlock StoppedMutex, PthreadJoin]))"
  by (simp add: serve_def Let_def report_attributes_def Shared_def emit_def outcome_def
                commandLoop.simps verbs handlers consumeHandler_def pthread_create_rc_def
                closeHandler_def Lock_rec Lock_destroy_def release_def mq_close_rc_def)


end
